(* ===== verification/Prelude.thy ===== *)
theory Prelude
  imports Main "HOL-Library.Word" "HOL-Library.Char_ord" "HOL-Library.List_Lexorder"
    "HOL-Library.Sublist"
begin

text \<open>
  Shared vocabulary of the development: the C++ types the program uses (\<open>std::string\<close> as a
  list of bytes, \<open>size_t\<close> as a 64-bit word), the \<open>std::string\<close> member functions the sources
  call (\<open>find\<close>, \<open>substr\<close>, \<open>find_first_not_of\<close>, \<open>find_last_not_of\<close>, \<open>find_last_of\<close>) with
  \<open>npos\<close> as \<open>None\<close>, and the lemmas about them that every component proof uses.
\<close>

section \<open>Types and collections\<close>

type_synonym size_t = "64 word"

named_theorems str_simps "rewriting of std::string operations"

abbreviation CR :: char where "CR \<equiv> CHR 0x0D"
abbreviation LF :: char where "LF \<equiv> CHR 0x0A"
abbreviation TAB :: char where "TAB \<equiv> CHR 0x09"
abbreviation SP :: char where "SP \<equiv> CHR 0x20"
abbreviation NUL :: char where "NUL \<equiv> CHR 0x00"
abbreviation crlf :: string where "crlf \<equiv> [CR, LF]"
abbreviation crlf2 :: string where "crlf2 \<equiv> [CR, LF, CR, LF]"

text \<open>A length that fits in \<open>size_t\<close> keeps its value there.\<close>

lemma unat_size: "n < 2 ^ 64 \<Longrightarrow> unat (word_of_nat n :: size_t) = n"
  by (simp add: unat_of_nat take_bit_eq_mod)

lemma unat_size_mod: "unat (word_of_nat n :: size_t) = n mod 2 ^ 64"
  by (simp add: unat_of_nat take_bit_eq_mod)

lemma word_of_nat_eq_0_mod: "(word_of_nat n :: size_t) = 0 \<longleftrightarrow> n mod 2 ^ 64 = 0"
  using unat_size_mod [of n] by (metis unsigned_0 unsigned_word_eqI)

lemma size_t_bound: "unat (w :: size_t) < 2 ^ 64"
  using unsigned_less [of w, where 'a = nat] by simp

lemma word_of_nat_eq_0: "n < 2 ^ 64 \<Longrightarrow> (word_of_nat n :: size_t) = 0 \<longleftrightarrow> n = 0"
  using unat_size [of n] by auto

section \<open>std::string operations\<close>

definition substr :: "'a list \<Rightarrow> nat \<Rightarrow> nat \<Rightarrow> 'a list" where
  "substr s pos n = take n (drop pos s)"

fun find_sub :: "'a list \<Rightarrow> 'a list \<Rightarrow> nat option" where
  "find_sub pat [] = (if pat = [] then Some 0 else None)"
| "find_sub pat (x # xs) =
     (if prefix pat (x # xs) then Some 0 else map_option Suc (find_sub pat xs))"

definition find_sub_from :: "'a list \<Rightarrow> 'a list \<Rightarrow> nat \<Rightarrow> nat option" where
  "find_sub_from pat s pos =
     (if length s < pos then None else map_option (\<lambda>i. i + pos) (find_sub pat (drop pos s)))"

fun find_if :: "('a \<Rightarrow> bool) \<Rightarrow> 'a list \<Rightarrow> nat option" where
  "find_if P [] = None"
| "find_if P (x # xs) = (if P x then Some 0 else map_option Suc (find_if P xs))"

definition find_char :: "'a \<Rightarrow> 'a list \<Rightarrow> nat option" where
  "find_char c s = find_if (\<lambda>x. x = c) s"

definition find_char_from :: "'a \<Rightarrow> 'a list \<Rightarrow> nat \<Rightarrow> nat option" where
  "find_char_from c s pos = map_option (\<lambda>i. i + pos) (find_char c (drop pos s))"

definition find_first_not_of :: "'a set \<Rightarrow> 'a list \<Rightarrow> nat option" where
  "find_first_not_of S s = find_if (\<lambda>x. x \<notin> S) s"

definition find_last_if :: "('a \<Rightarrow> bool) \<Rightarrow> 'a list \<Rightarrow> nat option" where
  "find_last_if P s = map_option (\<lambda>i. length s - 1 - i) (find_if P (rev s))"

definition find_last_not_of :: "'a set \<Rightarrow> 'a list \<Rightarrow> nat option" where
  "find_last_not_of S s = find_last_if (\<lambda>x. x \<notin> S) s"

definition find_last_of :: "'a \<Rightarrow> 'a list \<Rightarrow> nat option" where
  "find_last_of c s = find_last_if (\<lambda>x. x = c) s"

text \<open>
  \<open>contains s pat\<close> is the idiom \<open>s.find(pat) != std::string::npos\<close>, and
  \<open>ends_with s suf\<close> is \<open>s.size() >= n && s.compare(s.size() - n, n, suf) == 0\<close>.
\<close>

definition contains :: "'a list \<Rightarrow> 'a list \<Rightarrow> bool" where
  "contains s pat \<longleftrightarrow> find_sub pat s \<noteq> None"

definition ends_with :: "'a list \<Rightarrow> 'a list \<Rightarrow> bool" where
  "ends_with s suf \<longleftrightarrow>
     length suf \<le> length s \<and> substr s (length s - length suf) (length suf) = suf"

text \<open>\<open>s.compare(0, p.size(), p) == 0\<close>.\<close>

definition starts_with :: "'a list \<Rightarrow> 'a list \<Rightarrow> bool" where
  "starts_with s p \<longleftrightarrow> substr s 0 (length p) = p"

text \<open>The C string \<open>s.c_str()\<close> as a system call reads it: up to the first NUL byte.\<close>

definition c_str :: "string \<Rightarrow> string" where
  "c_str s = takeWhile (\<lambda>c. c \<noteq> NUL) s"

section \<open>Lemmas on searching\<close>

lemma substr_0 [str_simps]: "substr s 0 n = take n s"
  by (simp add: substr_def)

lemma length_substr [str_simps]: "length (substr s p n) = min n (length s - p)"
  by (simp add: substr_def)

lemma starts_with_prefix: "starts_with s p \<longleftrightarrow> prefix p s"
  by (auto simp: starts_with_def substr_def prefix_def)
     (metis append_take_drop_id)

lemma ends_with_suffix: "ends_with s suf \<longleftrightarrow> suffix suf s"
proof
  assume "ends_with s suf"
  then have "drop (length s - length suf) s = suf"
    by (simp add: ends_with_def substr_def)
  then show "suffix suf s" by (metis suffix_drop)
next
  assume "suffix suf s"
  then obtain p where "s = p @ suf" by (auto simp: suffix_def)
  then show "ends_with s suf" by (simp add: ends_with_def substr_def)
qed

lemma find_if_Some:
  "find_if P s = Some i \<Longrightarrow> i < length s \<and> P (s ! i) \<and> (\<forall>j < i. \<not> P (s ! j))"
proof (induction s arbitrary: i)
  case Nil
  then show ?case by simp
next
  case (Cons x xs)
  then show ?case
    by (auto split: if_splits simp: less_Suc_eq_0_disj)
qed

lemma find_if_None: "find_if P s = None \<longleftrightarrow> (\<forall>x \<in> set s. \<not> P x)"
  by (induction s) auto

lemma find_if_length: "find_if P s = Some i \<Longrightarrow> i < length s"
  by (simp add: find_if_Some)

lemma find_if_take: "find_if P s = Some i \<Longrightarrow> take i s = takeWhile (\<lambda>x. \<not> P x) s"
  by (induction s arbitrary: i) (auto split: if_splits)

lemma find_if_drop: "find_if P s = Some i \<Longrightarrow> drop i s = dropWhile (\<lambda>x. \<not> P x) s"
  by (induction s arbitrary: i) (auto split: if_splits)

lemma find_if_append:
  "find_if P (s @ t) =
     (case find_if P s of Some i \<Rightarrow> Some i | None \<Rightarrow> map_option (\<lambda>i. i + length s) (find_if P t))"
  by (induction s) (auto simp: option.map_comp comp_def option.map_ident split: option.splits)

lemma find_char_Some:
  "find_char c s = Some i \<Longrightarrow> i < length s \<and> s ! i = c \<and> c \<notin> set (take i s)"
  unfolding find_char_def
  by (auto dest!: find_if_Some simp: in_set_conv_nth)

lemma find_char_length: "find_char c s = Some i \<Longrightarrow> i < length s"
  by (simp add: find_char_Some)

lemma find_char_None [str_simps]: "find_char c s = None \<longleftrightarrow> c \<notin> set s"
  by (auto simp: find_char_def find_if_None)

lemma find_char_append [str_simps]:
  "c \<notin> set a \<Longrightarrow> find_char c (a @ c # b) = Some (length a)"
  unfolding find_char_def
  by (induction a) auto

lemma find_sub_Some:
  "find_sub pat s = Some i \<Longrightarrow> i + length pat \<le> length s \<and> take (length pat) (drop i s) = pat"
proof (induction s arbitrary: i)
  case Nil
  then show ?case by (simp split: if_splits)
next
  case (Cons x xs)
  show ?case
  proof (cases "prefix pat (x # xs)")
    case True
    then obtain zs where "x # xs = pat @ zs" by (auto simp: prefix_def)
    then have "length (x # xs) = length pat + length zs" and "take (length pat) (x # xs) = pat"
      by (simp_all del: take_Suc_Cons)
    with True Cons.prems show ?thesis by simp
  next
    case False
    with Cons show ?thesis by auto
  qed
qed

lemma find_sub_bound: "find_sub pat s = Some i \<Longrightarrow> i + length pat \<le> length s"
  by (simp add: find_sub_Some)

lemma find_sub_append: "find_sub pat s = Some i \<Longrightarrow> find_sub pat (s @ t) = Some i"
proof (induction s arbitrary: i)
  case Nil
  then show ?case by (cases t) (simp_all split: if_splits)
next
  case (Cons x xs)
  show ?case
  proof (cases "prefix pat (x # xs)")
    case True
    then have "prefix pat ((x # xs) @ t)" by (rule prefix_prefix)
    with True Cons.prems show ?thesis by simp
  next
    case False
    with Cons.prems obtain j where j: "find_sub pat xs = Some j" and i: "i = Suc j"
      by auto
    have "j + length pat \<le> length xs" using j by (rule find_sub_bound)
    then have "\<not> prefix pat ((x # xs) @ t)"
      using False prefix_length_prefix [of pat "(x # xs) @ t" "x # xs"] by auto
    with False j i Cons.IH show ?thesis by simp
  qed
qed

lemma find_sub_first:
  assumes "c \<notin> set a"
  shows "find_sub (c # pat) (a @ c # pat @ b) = Some (length a)"
  using assms by (induction a) auto

lemma find_sub_None_head: "c \<notin> set s \<Longrightarrow> find_sub (c # pat) s = None"
  by (induction s) auto

section \<open>Splitting off a CRLF-terminated line\<close>

text \<open>
  The idiom \<open>pos = buffer_.find("\r\n"); line = buffer_.substr(0, pos);
  buffer_.erase(0, pos + CRLF_LEN)\<close>, used by every line-oriented parser of the program.
\<close>

definition split_crlf :: "string \<Rightarrow> (string \<times> string) option" where
  "split_crlf s = map_option (\<lambda>pos. (substr s 0 pos, drop (pos + 2) s)) (find_sub crlf s)"

lemma split_crlf_append:
  assumes "split_crlf s = Some (line, rest)"
  shows "split_crlf (s @ t) = Some (line, rest @ t)"
proof -
  obtain i where i: "find_sub crlf s = Some i" "line = take i s" "rest = drop (i + 2) s"
    using assms by (auto simp: split_crlf_def str_simps)
  then have "i + 2 \<le> length s" using find_sub_bound by fastforce
  with i show ?thesis by (simp add: split_crlf_def str_simps find_sub_append)
qed

lemma split_crlf_length:
  "split_crlf s = Some (line, rest) \<Longrightarrow> length s = length line + 2 + length rest"
  by (auto simp: split_crlf_def str_simps dest: find_sub_bound)

lemma split_crlf_less: "split_crlf s = Some (line, rest) \<Longrightarrow> length rest < length s"
  by (simp add: split_crlf_length)

lemma split_crlf_eq:
  assumes "split_crlf s = Some (line, rest)"
  shows "s = line @ crlf @ rest"
proof -
  obtain i where i: "find_sub crlf s = Some i" "line = take i s" "rest = drop (i + 2) s"
    using assms by (auto simp: split_crlf_def str_simps)
  have "i + 2 \<le> length s" and "take 2 (drop i s) = crlf"
    using find_sub_Some [OF i(1)] by (simp_all add: numeral_2_eq_2)
  moreover have "s = take i s @ take 2 (drop i s) @ drop 2 (drop i s)"
    by (simp only: append_take_drop_id)
  ultimately show ?thesis using i by (simp add: add.commute)
qed

lemma split_crlf_line [str_simps]: "CR \<notin> set a \<Longrightarrow> split_crlf (a @ CR # LF # b) = Some (a, b)"
  using find_sub_first [of CR a "[LF]" b] by (simp add: split_crlf_def str_simps)

lemma split_crlf_empty [str_simps]: "split_crlf (CR # LF # b) = Some ([], b)"
  using split_crlf_line [of "[]" b] by simp

section \<open>Trimming\<close>

text \<open>
  The idiom \<open>start = s.find_first_not_of(S); stop = s.find_last_not_of(S);
  s.substr(start, stop - start + 1)\<close>, with the empty string where \<open>start\<close> is \<open>npos\<close>.
\<close>

definition trim_of :: "'a set \<Rightarrow> 'a list \<Rightarrow> 'a list" where
  "trim_of S s =
     (case (find_first_not_of S s, find_last_not_of S s) of
        (Some start, Some stop) \<Rightarrow> substr s start (stop - start + 1)
      | _ \<Rightarrow> [])"

lemma trim_of_eq: "trim_of S s = rev (dropWhile (\<lambda>x. x \<in> S) (rev (dropWhile (\<lambda>x. x \<in> S) s)))"
proof (cases "find_first_not_of S s")
  case None
  then have "\<forall>x \<in> set s. x \<in> S" by (simp add: find_first_not_of_def find_if_None)
  then show ?thesis by (auto simp: trim_of_def None dest: set_dropWhileD)
next
  case (Some i)
  then have i: "find_if (\<lambda>x. x \<notin> S) s = Some i" by (simp add: find_first_not_of_def)
  then have il: "i < length s" and iS: "s ! i \<notin> S" and ib: "\<forall>j < i. s ! j \<in> S"
    by (auto dest: find_if_Some)
  have d: "dropWhile (\<lambda>x. x \<in> S) s = drop i s"
    using find_if_drop [OF i] by simp
  have "\<exists>x \<in> set (rev s). x \<notin> S" using il iS by force
  then obtain k where k: "find_if (\<lambda>x. x \<notin> S) (rev s) = Some k"
    using find_if_None [of "\<lambda>x. x \<notin> S" "rev s"] by auto
  then have kl: "k < length s" and kS: "rev s ! k \<notin> S" by (auto dest: find_if_Some)
  let ?e = "length s - 1 - k"
  have e: "find_last_not_of S s = Some ?e"
    by (simp add: find_last_not_of_def find_last_if_def k)
  have "s ! ?e \<notin> S" using kl kS by (simp add: rev_nth)
  then have ie: "i \<le> ?e" using ib by (meson not_le_imp_less)
  have "dropWhile (\<lambda>x. x \<in> S) (rev (drop i s)) = drop k (rev (drop i s))"
  proof -
    have sp: "rev s = rev (drop i s) @ rev (take i s)"
      by (simp flip: rev_append)
    have "find_if (\<lambda>x. x \<notin> S) (rev (drop i s)) \<noteq> None"
      using il iS by (auto simp: find_if_None Cons_nth_drop_Suc [symmetric])
    then obtain k' where k': "find_if (\<lambda>x. x \<notin> S) (rev (drop i s)) = Some k'" by auto
    then have "k' = k" using k sp by (simp add: find_if_append)
    with k' show ?thesis using find_if_drop [of "\<lambda>x. x \<notin> S" "rev (drop i s)" k] by simp
  qed
  moreover have "rev (drop k (rev (drop i s))) = take (?e - i + 1) (drop i s)"
  proof -
    have "rev (drop k (rev (drop i s))) = take (length (drop i s) - k) (drop i s)"
      using rev_drop [of k "rev (drop i s)"] by (simp only: rev_rev_ident length_rev)
    moreover have "length (drop i s) - k = ?e - i + 1" using ie kl by simp
    ultimately show ?thesis by (simp only:)
  qed
  ultimately show ?thesis
    by (simp add: trim_of_def Some e substr_def d)
qed

lemma trim_of_Nil [str_simps]: "trim_of S [] = []"
  by (simp add: trim_of_eq)

lemma trim_of_id:
  assumes "s \<noteq> []" and "hd s \<notin> S" and "last s \<notin> S"
  shows "trim_of S s = s"
proof -
  have "dropWhile (\<lambda>x. x \<in> S) s = s" using assms by (cases s) auto
  moreover have "dropWhile (\<lambda>x. x \<in> S) (rev s) = rev s"
    using assms by (cases "rev s") (auto simp: last_rev hd_rev)
  ultimately show ?thesis by (simp add: trim_of_eq)
qed

lemma trim_of_Cons [str_simps]: "x \<in> S \<Longrightarrow> trim_of S (x # s) = trim_of S s"
  by (simp add: trim_of_eq)

lemma trim_of_clean: "x \<in> set (trim_of S s) \<Longrightarrow> x \<in> set s"
  by (auto simp: trim_of_eq dest!: set_dropWhileD)

lemma length_trim_of: "length (trim_of S s) \<le> length s"
  unfolding trim_of_eq by (metis length_dropWhile_le length_rev le_trans)

end
