(* ===== verification/CxxNum.thy ===== *)
theory CxxNum
  imports Prelude
begin

text \<open>
  Characters and numbers as the C and C++ library functions used by the program read and print
  them: \<open>tolower\<close>/\<open>toupper\<close> and \<open>isspace\<close> in the C locale, decimal output of an integer to a
  stream, \<open>atol\<close>/\<open>atoi\<close> (which saturate at the range of \<open>long\<close>), and \<open>istream >>\<close> into an
  \<open>int\<close>, a \<open>size_t\<close> and, under \<open>std::hex\<close>, an \<open>int\<close> (which fail on overflow).
\<close>

section \<open>Characters\<close>

definition code :: "char \<Rightarrow> nat" where
  "code c = of_char c"

definition tolower :: "char \<Rightarrow> char" where
  "tolower c = (if 65 \<le> code c \<and> code c \<le> 90 then char_of (code c + 32) else c)"

definition toupper :: "char \<Rightarrow> char" where
  "toupper c = (if 97 \<le> code c \<and> code c \<le> 122 then char_of (code c - 32) else c)"

definition is_space :: "char \<Rightarrow> bool" where
  "is_space c \<longleftrightarrow> c = SP \<or> (9 \<le> code c \<and> code c \<le> 13)"

definition is_digit :: "char \<Rightarrow> bool" where
  "is_digit c \<longleftrightarrow> 48 \<le> code c \<and> code c \<le> 57"

lemma code_bound: "code c < 256"
  by (simp add: code_def)

lemma code_char_of [simp]: "n < 256 \<Longrightarrow> code (char_of n) = n"
  by (simp add: code_def)

lemma char_of_code [simp]: "char_of (code c) = c"
  by (simp add: code_def)

lemma code_eq_iff: "code c = code d \<longleftrightarrow> c = d"
  by (metis char_of_code)

lemma code_tolower: "code (tolower c) = (if 65 \<le> code c \<and> code c \<le> 90 then code c + 32 else code c)"
  by (simp add: tolower_def)

lemma tolower_idem [simp]: "tolower (tolower c) = tolower c"
  by (simp add: code_tolower flip: code_eq_iff)

definition is_upper :: "char \<Rightarrow> bool" where
  "is_upper c \<longleftrightarrow> 65 \<le> code c \<and> code c \<le> 90"

lemma tolower_id: "\<not> is_upper c \<Longrightarrow> tolower c = c"
  by (auto simp: tolower_def is_upper_def)

lemma not_upper_tolower [simp]: "\<not> is_upper (tolower c)"
  by (simp add: is_upper_def code_tolower)

lemma tolower_eq_iff:
  assumes "\<not> is_upper d" and "\<not> (97 \<le> code d \<and> code d \<le> 122)"
  shows "tolower c = d \<longleftrightarrow> c = d"
  using assms by (auto simp: code_tolower is_upper_def simp flip: code_eq_iff)

lemma tolower_CR [simp]: "tolower c = CR \<longleftrightarrow> c = CR"
  by (rule tolower_eq_iff) (simp_all add: is_upper_def code_def)

section \<open>Decimal and hexadecimal digits\<close>

definition digit_char :: "nat \<Rightarrow> char" where
  "digit_char d = char_of (48 + d)"

definition digit_val :: "char \<Rightarrow> nat" where
  "digit_val c = code c - 48"

definition dec_val :: "string \<Rightarrow> nat" where
  "dec_val ds = foldl (\<lambda>n c. n * 10 + digit_val c) 0 ds"

lemma digit_char_digit: "d < 10 \<Longrightarrow> is_digit (digit_char d) \<and> digit_val (digit_char d) = d"
  by (simp add: digit_char_def is_digit_def digit_val_def)

lemma dec_val_snoc [simp]: "dec_val (ds @ [c]) = dec_val ds * 10 + digit_val c"
  by (simp add: dec_val_def)

lemma dec_val_Nil [simp]: "dec_val [] = 0"
  by (simp add: dec_val_def)

text \<open>\<open>std::ostringstream << n\<close> for an unsigned \<open>n\<close>.\<close>

fun show_nat :: "nat \<Rightarrow> string" where
  "show_nat n = (if n < 10 then [digit_char n] else show_nat (n div 10) @ [digit_char (n mod 10)])"

declare show_nat.simps [simp del]

definition show_int :: "int \<Rightarrow> string" where
  "show_int i = (if i < 0 then CHR ''-'' # show_nat (nat (- i)) else show_nat (nat i))"

lemma show_nat_digits: "\<forall>c \<in> set (show_nat n). is_digit c"
proof (induction n rule: show_nat.induct)
  case (1 n)
  show ?case
  proof (cases "n < 10")
    case True
    then show ?thesis by (simp add: show_nat.simps [of n] digit_char_digit)
  next
    case False
    with 1 show ?thesis by (simp add: show_nat.simps [of n] digit_char_digit)
  qed
qed

lemma show_nat_not_Nil [simp]: "show_nat n \<noteq> []"
  by (subst show_nat.simps) simp

lemma dec_val_show_nat [simp]: "dec_val (show_nat n) = n"
proof (induction n rule: show_nat.induct)
  case (1 n)
  show ?case
  proof (cases "n < 10")
    case True
    then show ?thesis
      by (simp add: show_nat.simps [of n] digit_char_digit dec_val_def)
  next
    case False
    with 1 show ?thesis by (simp add: show_nat.simps [of n] digit_char_digit)
  qed
qed

lemma show_nat_inject: "show_nat m = show_nat n \<longleftrightarrow> m = n"
  by (metis dec_val_show_nat)

lemma is_digit_not:
  assumes "is_digit c"
  shows "\<not> is_space c" "c \<noteq> CR" "c \<noteq> LF" "c \<noteq> SP" "c \<noteq> TAB" "c \<noteq> CHR ''-''" "c \<noteq> CHR ''+''"
    "\<not> is_upper c" "tolower c = c"
  using assms
  by (auto simp: is_digit_def is_space_def is_upper_def code_def tolower_def)

section \<open>C conversions: atol and atoi\<close>

definition sign_split :: "string \<Rightarrow> bool \<times> string" where
  "sign_split s =
     (case s of
        [] \<Rightarrow> (False, [])
      | c # cs \<Rightarrow> if c = CHR ''-'' then (True, cs) else if c = CHR ''+'' then (False, cs)
                  else (False, s))"

definition LONG_MAX :: int where "LONG_MAX = 9223372036854775807"
definition LONG_MIN :: int where "LONG_MIN = - 9223372036854775808"

definition atol :: "string \<Rightarrow> int" where
  "atol s =
     (let (neg, u) = sign_split (dropWhile is_space s);
          n = int (dec_val (takeWhile is_digit u))
      in max LONG_MIN (min LONG_MAX (if neg then - n else n)))"

text \<open>\<open>static_cast<size_t>(std::atol(s))\<close>: a negative value wraps around.\<close>

definition atol_size :: "string \<Rightarrow> size_t" where
  "atol_size s = word_of_int (atol s)"

text \<open>\<open>std::atoi(s)\<close>: the low 32 bits of \<open>atol\<close>, as a signed \<open>int\<close>.\<close>

definition atoi :: "string \<Rightarrow> int" where
  "atoi s = signed_take_bit 31 (atol s)"

lemma takeWhile_all_id: "\<forall>c \<in> set s. P c \<Longrightarrow> takeWhile P s = s"
  by (induction s) auto

lemma sign_split_digits: "\<forall>c \<in> set s. is_digit c \<Longrightarrow> sign_split s = (False, s)"
  by (cases s) (auto simp: sign_split_def is_digit_not)

lemma dropWhile_space_digits: "\<forall>c \<in> set s. is_digit c \<Longrightarrow> dropWhile is_space s = s"
  by (cases s) (auto simp: is_digit_not)

lemma atol_show_nat:
  assumes "int n \<le> LONG_MAX"
  shows "atol (show_nat n) = int n"
proof -
  have d: "\<forall>c \<in> set (show_nat n). is_digit c" by (rule show_nat_digits)
  show ?thesis
    using assms
    by (simp add: atol_def dropWhile_space_digits [OF d] sign_split_digits [OF d]
        takeWhile_all_id [OF d] LONG_MAX_def LONG_MIN_def)
qed

lemma atol_size_show_nat:
  assumes "int n \<le> LONG_MAX"
  shows "unat (atol_size (show_nat n)) = n"
proof -
  have "n < 2 ^ 64" using assms by (simp add: LONG_MAX_def)
  then show ?thesis
    by (simp add: atol_size_def atol_show_nat [OF assms] unat_of_nat take_bit_eq_mod)
qed

section \<open>Stream extraction\<close>

text \<open>
  \<open>stream >> x\<close> skips white space, reads an optional sign and the digits of the base, and fails
  when there is no digit or the value does not fit; what follows the digits is left in the
  stream. For an unsigned target a minus sign negates modulo \<open>2 ^ 64\<close>.
\<close>

definition extract_int :: "string \<Rightarrow> int option" where
  "extract_int s =
     (let (neg, u) = sign_split (dropWhile is_space s);
          ds = takeWhile is_digit u;
          v = (if neg then - int (dec_val ds) else int (dec_val ds))
      in if ds = [] \<or> v < - 2147483648 \<or> 2147483647 < v then None else Some v)"

definition extract_size :: "string \<Rightarrow> size_t option" where
  "extract_size s =
     (let (neg, u) = sign_split (dropWhile is_space s);
          ds = takeWhile is_digit u;
          n = dec_val ds
      in if ds = [] \<or> 18446744073709551615 < n then None
         else Some (if neg then - word_of_nat n else word_of_nat n))"

definition hex_digit :: "char \<Rightarrow> nat option" where
  "hex_digit c =
     (let n = code c in
      if 48 \<le> n \<and> n \<le> 57 then Some (n - 48)
      else if 97 \<le> n \<and> n \<le> 102 then Some (10 + (n - 97))
      else if 65 \<le> n \<and> n \<le> 70 then Some (10 + (n - 65))
      else None)"

definition is_hex :: "char \<Rightarrow> bool" where
  "is_hex c \<longleftrightarrow> hex_digit c \<noteq> None"

definition hex_val :: "string \<Rightarrow> nat" where
  "hex_val ds = foldl (\<lambda>n c. n * 16 + the (hex_digit c)) 0 ds"

definition extract_hex :: "string \<Rightarrow> int option" where
  "extract_hex s =
     (let (neg, u) = sign_split (dropWhile is_space s);
          u' = (case u of
                  a # b # w \<Rightarrow> if a = CHR ''0'' \<and> (b = CHR ''x'' \<or> b = CHR ''X'') then w else u
                | _ \<Rightarrow> u);
          ds = takeWhile is_hex u';
          v = (if neg then - int (hex_val ds) else int (hex_val ds))
      in if ds = [] \<or> v < - 2147483648 \<or> 2147483647 < v then None else Some v)"

text \<open>\<open>while (stream >> word)\<close>: the white-space separated words of a string.\<close>

lemma length_dropWhile_less: "s \<noteq> [] \<Longrightarrow> P (hd s) \<Longrightarrow> length (dropWhile P s) < length s"
  by (cases s) (auto simp: length_dropWhile_le less_Suc_eq_le)

function stream_words :: "string \<Rightarrow> string list" where
  "stream_words s =
     (let t = dropWhile is_space s in
      if t = [] then []
      else takeWhile (\<lambda>c. \<not> is_space c) t # stream_words (dropWhile (\<lambda>c. \<not> is_space c) t))"
  by pat_completeness auto
termination
proof (relation "measure length", goal_cases)
  case 1
  show ?case by simp
next
  case (2 s t)
  then have "\<not> is_space (hd t)" by (simp add: hd_dropWhile)
  then have "length (dropWhile (\<lambda>c. \<not> is_space c) t) < length t"
    using 2 by (intro length_dropWhile_less) auto
  also have "\<dots> \<le> length s" using 2 by (simp add: length_dropWhile_le)
  finally show ?case by simp
qed

declare stream_words.simps [simp del]

lemma stream_words_Nil [simp]: "stream_words [] = []"
  by (simp add: stream_words.simps)

lemma stream_words_step:
  assumes "dropWhile is_space s = c # t"
  shows "stream_words s =
    takeWhile (\<lambda>c. \<not> is_space c) (c # t) # stream_words (dropWhile (\<lambda>c. \<not> is_space c) (c # t))"
  by (subst stream_words.simps) (simp only: assms Let_def list.distinct if_False)

lemma stream_words_blank:
  assumes "dropWhile is_space s = []"
  shows "stream_words s = []"
  by (subst stream_words.simps) (simp only: assms Let_def if_True refl)

lemma stream_words_clean: "w \<in> set (stream_words s) \<Longrightarrow> w \<noteq> [] \<and> (\<forall>c \<in> set w. \<not> is_space c)"
proof (induction s rule: stream_words.induct)
  case (1 s)
  show ?case
  proof (cases "dropWhile is_space s")
    case Nil
    with "1.prems" show ?thesis by (simp only: stream_words_blank) simp
  next
    case (Cons c t)
    then have c: "\<not> is_space c" using hd_dropWhile [of is_space s] by simp
    from "1.prems" consider "w = takeWhile (\<lambda>c. \<not> is_space c) (c # t)"
      | "w \<in> set (stream_words (dropWhile (\<lambda>c. \<not> is_space c) (c # t)))"
      by (auto simp only: stream_words_step [OF Cons] list.set insert_iff)
    then show ?thesis
    proof cases
      case 1
      with c show ?thesis by (auto dest: set_takeWhileD)
    next
      case 2
      with "1.IH" [OF refl] show ?thesis by (simp only: Cons) blast
    qed
  qed
qed

section \<open>Hexadecimal output (reference encoder for chunk sizes)\<close>

definition hex_char :: "nat \<Rightarrow> char" where
  "hex_char d = (if d < 10 then char_of (48 + d) else char_of (87 + d))"

fun show_hex :: "nat \<Rightarrow> string" where
  "show_hex n = (if n < 16 then [hex_char n] else show_hex (n div 16) @ [hex_char (n mod 16)])"

declare show_hex.simps [simp del]

lemma hex_digit_char: "d < 16 \<Longrightarrow> hex_digit (hex_char d) = Some d"
  by (auto simp: hex_char_def hex_digit_def Let_def)

lemma hex_val_snoc [simp]: "hex_val (ds @ [c]) = hex_val ds * 16 + the (hex_digit c)"
  by (simp add: hex_val_def)

lemma show_hex_correct: "hex_val (show_hex n) = n \<and> (\<forall>c \<in> set (show_hex n). is_hex c) \<and> show_hex n \<noteq> []"
proof (induction n rule: show_hex.induct)
  case (1 n)
  show ?case
  proof (cases "n < 16")
    case True
    then show ?thesis
      by (simp add: show_hex.simps [of n] hex_val_def is_hex_def hex_digit_char)
  next
    case False
    with 1 show ?thesis
      by (simp add: show_hex.simps [of n] is_hex_def hex_digit_char)
  qed
qed

lemma is_hex_not:
  assumes "is_hex c"
  shows "c \<noteq> CR" "c \<noteq> SP" "c \<noteq> TAB" "c \<noteq> CHR '';''" "\<not> is_space c"
  using assms
  by (auto simp: is_hex_def hex_digit_def Let_def code_def is_space_def split: if_splits)

end
