(* ===== verification/CxxMap.thy ===== *)
theory CxxMap
  imports Prelude
begin

text \<open>
  \<open>std::map<K, V>\<close> as the list of its entries in increasing key order, which is the order its
  iterators visit: \<open>m[k] = v\<close> is \<open>map_put\<close>, \<open>m.find(k)\<close> is \<open>map_of\<close>, \<open>m.erase(k)\<close> is
  \<open>map_erase\<close>. The locale \<open>keyed_store\<close> is the contract the program relies on; the ordered list
  is shown to provide it, and header maps, error-page maps and descriptor tables use its facts.
\<close>

section \<open>The interface\<close>

locale keyed_store =
  fixes empty :: "'m"
    and put :: "'k \<Rightarrow> 'v \<Rightarrow> 'm \<Rightarrow> 'm"
    and del :: "'k \<Rightarrow> 'm \<Rightarrow> 'm"
    and look :: "'m \<Rightarrow> 'k \<Rightarrow> 'v option"
    and entries :: "'m \<Rightarrow> ('k \<times> 'v) list"
    and wf_store :: "'m \<Rightarrow> bool"
  assumes look_empty: "look empty k = None"
    and look_put: "look (put k v m) k' = (if k' = k then Some v else look m k')"
    and look_del: "wf_store m \<Longrightarrow> look (del k m) k' = (if k' = k then None else look m k')"
    and wf_empty: "wf_store empty"
    and wf_put: "wf_store m \<Longrightarrow> wf_store (put k v m)"
    and wf_del: "wf_store m \<Longrightarrow> wf_store (del k m)"
    and entries_look: "wf_store m \<Longrightarrow> (k, v) \<in> set (entries m) \<longleftrightarrow> look m k = Some v"
    and entries_distinct: "wf_store m \<Longrightarrow> distinct (map fst (entries m))"
begin

lemma look_puts:
  "look (foldl (\<lambda>m kv. put (fst kv) (snd kv) m) m kvs) k =
     (case map_of (rev kvs) k of Some v \<Rightarrow> Some v | None \<Rightarrow> look m k)"
proof (induction kvs arbitrary: m)
  case Nil
  then show ?case by simp
next
  case (Cons kv kvs)
  then show ?case
    by (cases kv) (auto simp: look_put map_add_def split: option.splits)
qed

lemma wf_puts: "wf_store m \<Longrightarrow> wf_store (foldl (\<lambda>m kv. put (fst kv) (snd kv) m) m kvs)"
  by (induction kvs arbitrary: m) (auto simp: wf_put)

lemma put_then_del: "wf_store m \<Longrightarrow> look (del k (put k v m)) k' = (if k' = k then None else look m k')"
  by (simp add: look_del wf_put look_put)

lemma entries_put:
  "wf_store m \<Longrightarrow>
     set (entries (put k v m)) = insert (k, v) {kv \<in> set (entries m). fst kv \<noteq> k}"
  by (auto simp: entries_look wf_put look_put split: if_splits)

end

section \<open>The ordered list of entries\<close>

type_synonym ('k, 'v) std_map = "('k \<times> 'v) list"

fun map_put :: "'k::linorder \<Rightarrow> 'v \<Rightarrow> ('k, 'v) std_map \<Rightarrow> ('k, 'v) std_map" where
  "map_put k v [] = [(k, v)]"
| "map_put k v (e # m) =
     (if k < fst e then (k, v) # e # m
      else if k = fst e then (k, v) # m
      else e # map_put k v m)"

definition map_erase :: "'k \<Rightarrow> ('k, 'v) std_map \<Rightarrow> ('k, 'v) std_map" where
  "map_erase k m = filter (\<lambda>e. fst e \<noteq> k) m"

definition ordered_map :: "('k::linorder, 'v) std_map \<Rightarrow> bool" where
  "ordered_map m \<longleftrightarrow> sorted_wrt (<) (map fst m)"

lemma map_of_map_put: "map_of (map_put k v m) k' = (if k' = k then Some v else map_of m k')"
  by (induction m) auto

lemma map_of_map_erase: "map_of (map_erase k m) k' = (if k' = k then None else map_of m k')"
  by (induction m) (auto simp: map_erase_def)

lemma keys_map_put: "fst ` set (map_put k v m) = insert k (fst ` set m)"
  by (induction m) auto

lemma ordered_map_put: "ordered_map m \<Longrightarrow> ordered_map (map_put k v m)"
proof (induction m)
  case Nil
  then show ?case by (simp add: ordered_map_def)
next
  case (Cons e m)
  then have m: "ordered_map m" and e: "\<forall>x \<in> fst ` set m. fst e < x"
    by (auto simp: ordered_map_def)
  show ?case
  proof (cases "k < fst e \<or> k = fst e")
    case True
    with Cons.prems e show ?thesis by (auto simp: ordered_map_def intro: less_trans)
  next
    case False
    with e have "\<forall>x \<in> fst ` set (map_put k v m). fst e < x"
      by (auto simp: keys_map_put not_less_iff_gr_or_eq)
    with False Cons.IH [OF m] show ?thesis by (auto simp: ordered_map_def)
  qed
qed

lemma ordered_map_erase: "ordered_map m \<Longrightarrow> ordered_map (map_erase k m)"
  by (induction m) (auto simp: ordered_map_def map_erase_def)

lemma ordered_map_distinct: "ordered_map m \<Longrightarrow> distinct (map fst m)"
  by (simp add: ordered_map_def strict_sorted_iff)

interpretation std_map: keyed_store "[]" map_put map_erase map_of "\<lambda>m. m" ordered_map
proof (unfold_locales, goal_cases)
  case (7 m k v)
  then show ?case by (simp add: ordered_map_distinct)
next
  case (8 m)
  then show ?case by (rule ordered_map_distinct)
next
  case 4
  show ?case by (simp add: ordered_map_def)
qed (auto simp: map_of_map_put map_of_map_erase ordered_map_put ordered_map_erase)

lemma map_put_same: "map_of m k = Some v \<Longrightarrow> ordered_map m \<Longrightarrow> map_put k v m = m"
proof (induction m)
  case Nil
  then show ?case by simp
next
  case (Cons e m)
  then have "\<forall>x \<in> fst ` set m. fst e < x" and "ordered_map m"
    by (auto simp: ordered_map_def)
  with Cons show ?case
    by (cases e) (auto split: if_splits dest!: map_of_SomeD)
qed

lemma map_put_keys_all: "(\<forall>e \<in> set m. P (fst e)) \<Longrightarrow> P k \<Longrightarrow> \<forall>e \<in> set (map_put k v m). P (fst e)"
  by (induction m) auto

end
