(* ===== verification/Request.thy ===== *)
theory Request
  imports CxxNum CxxMap
begin

text \<open>
  The HTTP request parser of \<open>src/src/HTTPRequest.cpp\<close> and \<open>src/inc/HTTPRequest.hpp\<close>: its state
  (the class's members, as a record), each private parsing step and the loop \<open>parse\<close>. A step
  returns the C++ function's \<open>bool\<close> and the object it leaves behind. Sizes that come from the
  peer (\<open>Content-Length\<close>, chunk sizes, the body limit) are \<open>size_t\<close> words; lengths of strings
  held in memory are natural numbers.
\<close>

section \<open>State\<close>

datatype parse_state =
    PARSSING_REQUEST_LINE | PARSSING_HEADERS | PARSSING_BODY | PARSSING_COMPLETE | PARSSING_ERROR

datatype chunked_state = CHUNK_SIZE | CHUNK_DATA | CHUNK_DATA_CRLF | CHUNK_TRAILERS

record request =
  rq_buffer :: string
  rq_state :: parse_state
  rq_chunked_state :: chunked_state
  rq_chunk_remaining :: size_t
  rq_is_chunked :: bool
  rq_method :: string
  rq_target :: string
  rq_protocol :: string
  rq_headers :: "(string, string) std_map"
  rq_body :: string
  rq_max_body_size :: size_t
  rq_body_too_large :: bool

text \<open>The default constructor; \<open>reset\<close> puts an object back into this state.\<close>

definition new_request :: request where
  "new_request =
     \<lparr>rq_buffer = [], rq_state = PARSSING_REQUEST_LINE, rq_chunked_state = CHUNK_SIZE,
      rq_chunk_remaining = 0, rq_is_chunked = False, rq_method = [], rq_target = [],
      rq_protocol = [], rq_headers = [], rq_body = [], rq_max_body_size = 0,
      rq_body_too_large = False\<rparr>"

definition reset :: "request \<Rightarrow> request" where
  "reset r =
     r\<lparr>rq_buffer := [], rq_state := PARSSING_REQUEST_LINE, rq_chunked_state := CHUNK_SIZE,
       rq_chunk_remaining := 0, rq_is_chunked := False, rq_method := [], rq_target := [],
       rq_protocol := [], rq_headers := [], rq_body := [], rq_max_body_size := 0,
       rq_body_too_large := False\<rparr>"

definition set_max_body_size :: "size_t \<Rightarrow> request \<Rightarrow> request" where
  "set_max_body_size n r = r\<lparr>rq_max_body_size := n\<rparr>"

definition str_to_lower :: "string \<Rightarrow> string" where
  "str_to_lower s = map tolower s"

lemma str_to_lower_Nil [simp]: "str_to_lower [] = []"
  by (simp add: str_to_lower_def)

lemma lower_names [simp]:
  "str_to_lower ''Content-Length'' = ''content-length''"
  "str_to_lower ''Transfer-Encoding'' = ''transfer-encoding''"
  "str_to_lower ''content-length'' = ''content-length''"
  "str_to_lower ''transfer-encoding'' = ''transfer-encoding''"
  "str_to_lower ''content-type'' = ''content-type''"
  "str_to_lower ''host'' = ''host''"
  by code_simp+

definition get_header_value :: "request \<Rightarrow> string \<Rightarrow> string" where
  "get_header_value r key =
     (let lower_key = str_to_lower key in
      case map_of (rq_headers r) lower_key of Some v \<Rightarrow> v | None \<Rightarrow> [])"

definition is_error :: "request \<Rightarrow> bool" where
  "is_error r \<longleftrightarrow> rq_state r = PARSSING_ERROR"

definition is_headers_done :: "request \<Rightarrow> bool" where
  "is_headers_done r \<longleftrightarrow> rq_state r = PARSSING_BODY \<or> rq_state r = PARSSING_COMPLETE"

text \<open>\<open>get_chunked_state\<close>: the enumeration cast to \<open>int\<close>.\<close>

definition get_chunked_state :: "request \<Rightarrow> int" where
  "get_chunked_state r =
     (case rq_chunked_state r of
        CHUNK_SIZE \<Rightarrow> 0 | CHUNK_DATA \<Rightarrow> 1 | CHUNK_DATA_CRLF \<Rightarrow> 2 | CHUNK_TRAILERS \<Rightarrow> 3)"

section \<open>Request line\<close>

definition parse_request_line :: "request \<Rightarrow> bool \<times> request" where
  "parse_request_line r =
     (case split_crlf (rq_buffer r) of
        None \<Rightarrow> (False, r)
      | Some (line, rest) \<Rightarrow>
          let r = r\<lparr>rq_buffer := rest\<rparr> in
          case find_char SP line of
            None \<Rightarrow> (False, r\<lparr>rq_state := PARSSING_ERROR\<rparr>)
          | Some first_space \<Rightarrow>
             (case find_char_from SP line (first_space + 1) of
                None \<Rightarrow> (False, r\<lparr>rq_state := PARSSING_ERROR\<rparr>)
              | Some second_space \<Rightarrow>
                  let r = r\<lparr>rq_method := substr line 0 first_space,
                            rq_target := substr line (first_space + 1)
                                           (second_space - first_space - 1),
                            rq_protocol := drop (second_space + 1) line\<rparr>
                  in if rq_method r = [] \<or> rq_target r = [] \<or> rq_protocol r = []
                     then (False, r\<lparr>rq_state := PARSSING_ERROR\<rparr>)
                     else (True, r)))"

section \<open>Header fields\<close>

definition blanks :: "char set" where
  "blanks = {SP, TAB}"

function parse_headers :: "request \<Rightarrow> bool \<times> request" where
  "parse_headers r =
     (case split_crlf (rq_buffer r) of
        None \<Rightarrow> (False, r)
      | Some (line, rest) \<Rightarrow>
          let r = r\<lparr>rq_buffer := rest\<rparr> in
          if line = [] then (True, r)
          else case find_char CHR '':'' line of
                 None \<Rightarrow> (False, r\<lparr>rq_state := PARSSING_ERROR\<rparr>)
               | Some colon \<Rightarrow>
                   let key = str_to_lower (substr line 0 colon);
                       val = trim_of blanks (drop (colon + 1) line)
                   in parse_headers (r\<lparr>rq_headers := map_put key val (rq_headers r)\<rparr>))"
  by pat_completeness auto
termination
  by (relation "measure (\<lambda>r. length (rq_buffer r))") (auto dest: split_crlf_less)

declare parse_headers.simps [simp del]

definition te_chunked :: "string \<Rightarrow> bool" where
  "te_chunked v \<longleftrightarrow> contains (str_to_lower v) ''chunked''"

definition has_body :: "request \<Rightarrow> bool" where
  "has_body r \<longleftrightarrow>
     (case map_of (rq_headers r) ''transfer-encoding'' of
        Some v \<Rightarrow> te_chunked v | None \<Rightarrow> False)
     \<or> map_of (rq_headers r) ''content-length'' \<noteq> None"

section \<open>Chunked transfer encoding\<close>

text \<open>
  \<open>parse_hex_string\<close> first checks every character, then accumulates in \<open>size_t\<close> arithmetic,
  which wraps around.
\<close>

definition parse_hex_string :: "string \<Rightarrow> size_t option" where
  "parse_hex_string s =
     (if \<forall>c \<in> set s. is_hex c
      then Some (foldl (\<lambda>n c. n * 16 + word_of_nat (the (hex_digit c))) 0 s)
      else None)"

definition parse_chunk_size :: "request \<Rightarrow> bool \<times> request" where
  "parse_chunk_size r =
     (case split_crlf (rq_buffer r) of
        None \<Rightarrow> (False, r)
      | Some (line, rest) \<Rightarrow>
          let r = r\<lparr>rq_buffer := rest\<rparr>;
              size_line = (case find_char CHR '';'' line of
                             Some semi \<Rightarrow> substr line 0 semi | None \<Rightarrow> line)
          in if find_first_not_of blanks size_line = None
             then (False, r\<lparr>rq_state := PARSSING_ERROR\<rparr>)
             else case parse_hex_string (trim_of blanks size_line) of
                    None \<Rightarrow> (False, r\<lparr>rq_state := PARSSING_ERROR\<rparr>)
                  | Some n \<Rightarrow>
                      (True, r\<lparr>rq_chunk_remaining := n,
                               rq_chunked_state := (if n = 0 then CHUNK_TRAILERS else CHUNK_DATA)\<rparr>))"

definition parse_chunk_data :: "request \<Rightarrow> bool \<times> request" where
  "parse_chunk_data r =
     (if unat (rq_chunk_remaining r) \<le> length (rq_buffer r)
      then let n = unat (rq_chunk_remaining r);
               r = r\<lparr>rq_body := rq_body r @ substr (rq_buffer r) 0 n,
                     rq_buffer := drop n (rq_buffer r),
                     rq_chunk_remaining := 0,
                     rq_chunked_state := CHUNK_DATA_CRLF\<rparr>
           in if 0 < rq_max_body_size r \<and> unat (rq_max_body_size r) < length (rq_body r)
              then (False, r\<lparr>rq_body_too_large := True, rq_state := PARSSING_ERROR\<rparr>)
              else (True, r)
      else (False, r\<lparr>rq_chunk_remaining := rq_chunk_remaining r - word_of_nat (length (rq_buffer r)),
                     rq_body := rq_body r @ rq_buffer r,
                     rq_buffer := []\<rparr>))"

definition parse_chunk_data_crlf :: "request \<Rightarrow> bool \<times> request" where
  "parse_chunk_data_crlf r =
     (if length (rq_buffer r) < 2 then (False, r)
      else if rq_buffer r ! 0 \<noteq> CR \<or> rq_buffer r ! 1 \<noteq> LF
      then (False, r\<lparr>rq_state := PARSSING_ERROR\<rparr>)
      else (True, r\<lparr>rq_buffer := drop 2 (rq_buffer r), rq_chunked_state := CHUNK_SIZE\<rparr>))"

function parse_chunk_trailers :: "request \<Rightarrow> bool \<times> request" where
  "parse_chunk_trailers r =
     (case split_crlf (rq_buffer r) of
        None \<Rightarrow> (False, r)
      | Some (line, rest) \<Rightarrow>
          let r = r\<lparr>rq_buffer := rest\<rparr> in
          if line = [] then (True, r) else parse_chunk_trailers r)"
  by pat_completeness auto
termination
  by (relation "measure (\<lambda>r. length (rq_buffer r))") (auto dest: split_crlf_less)

declare parse_chunk_trailers.simps [simp del]

text \<open>
  One turn of the loop of \<open>parse_chunked_body\<close> in the three states that continue it, then the
  loop. Each turn that returns true either shortens the buffer or leaves \<open>CHUNK_DATA\<close>.
\<close>

definition chunk_turn :: "request \<Rightarrow> bool \<times> request" where
  "chunk_turn r =
     (case rq_chunked_state r of
        CHUNK_SIZE \<Rightarrow> parse_chunk_size r
      | CHUNK_DATA \<Rightarrow> parse_chunk_data r
      | CHUNK_DATA_CRLF \<Rightarrow> parse_chunk_data_crlf r
      | CHUNK_TRAILERS \<Rightarrow> (False, r))"

definition chunk_measure :: "request \<Rightarrow> nat" where
  "chunk_measure r = 2 * length (rq_buffer r) + (if rq_chunked_state r = CHUNK_DATA then 1 else 0)"

lemma chunk_turn_decreases: "chunk_turn r = (True, r') \<Longrightarrow> chunk_measure r' < chunk_measure r"
  by (auto simp: chunk_turn_def chunk_measure_def parse_chunk_size_def parse_chunk_data_def
      parse_chunk_data_crlf_def Let_def
      split: chunked_state.splits option.splits if_splits prod.splits dest!: split_crlf_length)

function parse_chunked_body :: "request \<Rightarrow> bool \<times> request" where
  "parse_chunked_body r =
     (if rq_chunked_state r = CHUNK_TRAILERS then parse_chunk_trailers r
      else case chunk_turn r of
             (False, r') \<Rightarrow> (False, r')
           | (True, r') \<Rightarrow> parse_chunked_body r')"
  by pat_completeness auto
termination
  by (relation "measure chunk_measure") (auto dest: chunk_turn_decreases [OF sym])

declare parse_chunked_body.simps [simp del]

section \<open>Body and main loop\<close>

definition parse_body :: "request \<Rightarrow> bool \<times> request" where
  "parse_body r =
     (if rq_is_chunked r then parse_chunked_body r
      else let content_length = get_header_value r ''Content-Length'' in
        if content_length \<noteq> [] then
          let len = atol_size content_length in
          if 0 < rq_max_body_size r \<and> rq_max_body_size r < len
          then (False, r\<lparr>rq_body_too_large := True, rq_state := PARSSING_ERROR\<rparr>)
          else let body_len = length (rq_body r) in
            if body_len < unat len then
              let needed = unat len - body_len in
              if needed \<le> length (rq_buffer r)
              then (True, r\<lparr>rq_body := rq_body r @ substr (rq_buffer r) 0 needed,
                            rq_buffer := drop needed (rq_buffer r)\<rparr>)
              else (False, r\<lparr>rq_body := rq_body r @ rq_buffer r, rq_buffer := []\<rparr>)
            else (True, r)
        else (True, r))"

definition state_rank :: "parse_state \<Rightarrow> nat" where
  "state_rank s =
     (case s of PARSSING_REQUEST_LINE \<Rightarrow> 0 | PARSSING_HEADERS \<Rightarrow> 1 | PARSSING_BODY \<Rightarrow> 2
              | PARSSING_COMPLETE \<Rightarrow> 3 | PARSSING_ERROR \<Rightarrow> 4)"

definition after_headers :: "request \<Rightarrow> request" where
  "after_headers r =
     (if has_body r
      then r\<lparr>rq_is_chunked := te_chunked (get_header_value r ''Transfer-Encoding''),
             rq_state := PARSSING_BODY\<rparr>
      else r\<lparr>rq_state := PARSSING_COMPLETE\<rparr>)"

function parse_loop :: "request \<Rightarrow> bool \<times> request" where
  "parse_loop r =
     (case rq_state r of
        PARSSING_REQUEST_LINE \<Rightarrow>
          (case parse_request_line r of
             (False, r') \<Rightarrow> (False, r')
           | (True, r') \<Rightarrow> parse_loop (r'\<lparr>rq_state := PARSSING_HEADERS\<rparr>))
      | PARSSING_HEADERS \<Rightarrow>
          (case parse_headers r of
             (False, r') \<Rightarrow> (False, r')
           | (True, r') \<Rightarrow> parse_loop (after_headers r'))
      | PARSSING_BODY \<Rightarrow>
          (case parse_body r of
             (False, r') \<Rightarrow> (False, r')
           | (True, r') \<Rightarrow> parse_loop (r'\<lparr>rq_state := PARSSING_COMPLETE\<rparr>))
      | PARSSING_COMPLETE \<Rightarrow> (True, r)
      | PARSSING_ERROR \<Rightarrow> (False, r))"
  by pat_completeness auto
termination
  by (relation "measure (\<lambda>r. 4 - state_rank (rq_state r))")
     (auto simp: state_rank_def after_headers_def)

declare parse_loop.simps [simp del]

definition parse :: "request \<Rightarrow> string \<Rightarrow> bool \<times> request" where
  "parse r data = parse_loop (r\<lparr>rq_buffer := rq_buffer r @ data\<rparr>)"

text \<open>Feeding the pieces a connection delivers, one \<open>parse\<close> call each.\<close>

definition parse_all :: "request \<Rightarrow> string list \<Rightarrow> request" where
  "parse_all r ds = foldl (\<lambda>r d. snd (parse r d)) r ds"

section \<open>One turn of each loop, and frames\<close>

text \<open>The loops unfolded once, and the members each step leaves alone.\<close>

lemma parse_headers_wait: "split_crlf (rq_buffer r) = None \<Longrightarrow> parse_headers r = (False, r)"
  by (simp add: parse_headers.simps [of r])

lemma parse_headers_blank:
  "split_crlf (rq_buffer r) = Some ([], rest) \<Longrightarrow> parse_headers r = (True, r\<lparr>rq_buffer := rest\<rparr>)"
  by (simp add: parse_headers.simps [of r])

lemma parse_headers_bad:
  "split_crlf (rq_buffer r) = Some (line, rest) \<Longrightarrow> line \<noteq> [] \<Longrightarrow> find_char CHR '':'' line = None \<Longrightarrow>
     parse_headers r = (False, r\<lparr>rq_buffer := rest, rq_state := PARSSING_ERROR\<rparr>)"
  by (simp add: parse_headers.simps [of r])

lemma parse_headers_field:
  "split_crlf (rq_buffer r) = Some (line, rest) \<Longrightarrow> line \<noteq> [] \<Longrightarrow>
   find_char CHR '':'' line = Some colon \<Longrightarrow>
     parse_headers r =
       parse_headers (r\<lparr>rq_buffer := rest,
         rq_headers := map_put (str_to_lower (substr line 0 colon))
           (trim_of blanks (drop (colon + 1) line)) (rq_headers r)\<rparr>)"
  by (simp add: parse_headers.simps [of r])

lemma parse_headers_cases:
  obtains (wait) "split_crlf (rq_buffer r) = None"
  | (blank) rest where "split_crlf (rq_buffer r) = Some ([], rest)"
  | (bad) line rest where "split_crlf (rq_buffer r) = Some (line, rest)" "line \<noteq> []"
      "find_char CHR '':'' line = None"
  | (field) line rest colon where "split_crlf (rq_buffer r) = Some (line, rest)" "line \<noteq> []"
      "find_char CHR '':'' line = Some colon"
proof (cases "split_crlf (rq_buffer r)")
  case None
  then show ?thesis by (rule wait)
next
  case (Some lr)
  then obtain line rest where s: "split_crlf (rq_buffer r) = Some (line, rest)" by (cases lr) simp
  show ?thesis
  proof (cases "line = []")
    case True
    with s blank show ?thesis by simp
  next
    case False
    with s bad field show ?thesis by (cases "find_char CHR '':'' line") simp_all
  qed
qed

lemma parse_headers_rule [consumes 1, case_names wait blank bad field]:
  assumes run: "parse_headers r = (ok, t)"
    and wait: "\<And>r. split_crlf (rq_buffer r) = None \<Longrightarrow> P r False r"
    and blank: "\<And>r rest. split_crlf (rq_buffer r) = Some ([], rest) \<Longrightarrow>
                  P r True (r\<lparr>rq_buffer := rest\<rparr>)"
    and bad: "\<And>r line rest. split_crlf (rq_buffer r) = Some (line, rest) \<Longrightarrow> line \<noteq> [] \<Longrightarrow>
                find_char CHR '':'' line = None \<Longrightarrow>
                P r False (r\<lparr>rq_buffer := rest, rq_state := PARSSING_ERROR\<rparr>)"
    and field: "\<And>r line rest colon ok t. split_crlf (rq_buffer r) = Some (line, rest) \<Longrightarrow>
                  line \<noteq> [] \<Longrightarrow> find_char CHR '':'' line = Some colon \<Longrightarrow>
                  P (r\<lparr>rq_buffer := rest,
                      rq_headers := map_put (str_to_lower (substr line 0 colon))
                        (trim_of blanks (drop (colon + 1) line)) (rq_headers r)\<rparr>) ok t \<Longrightarrow>
                  P r ok t"
  shows "P r ok t"
  using run
proof (induction r rule: parse_headers.induct)
  case (1 r)
  show ?case
  proof (cases r rule: parse_headers_cases)
    case wait
    with "1.prems" assms(2) show ?thesis by (simp add: parse_headers_wait)
  next
    case (blank rest)
    with "1.prems" assms(3) show ?thesis by (auto simp: parse_headers_blank)
  next
    case (bad line rest)
    with "1.prems" assms(4) [OF bad] show ?thesis by (auto simp: parse_headers_bad)
  next
    case (field line rest colon)
    note IH = "1.IH" [OF field(1) refl refl field(2,3) refl refl]
    show ?thesis
      using "1.prems" assms(5) [OF field] IH by (simp add: parse_headers_field [OF field])
  qed
qed

lemma parse_headers_frame:
  "parse_headers r = (ok, t) \<Longrightarrow>
     rq_method t = rq_method r \<and> rq_target t = rq_target r \<and> rq_protocol t = rq_protocol r \<and>
     rq_body t = rq_body r \<and> rq_max_body_size t = rq_max_body_size r \<and>
     rq_is_chunked t = rq_is_chunked r \<and> rq_chunked_state t = rq_chunked_state r \<and>
     rq_chunk_remaining t = rq_chunk_remaining r \<and>
     (ok \<longrightarrow> rq_state t = rq_state r) \<and> (\<not> ok \<longrightarrow> rq_state t \<in> {rq_state r, PARSSING_ERROR})"
  by (induction rule: parse_headers_rule) auto

lemma parse_chunk_trailers_wait:
  "split_crlf (rq_buffer r) = None \<Longrightarrow> parse_chunk_trailers r = (False, r)"
  by (simp add: parse_chunk_trailers.simps [of r])

lemma parse_chunk_trailers_line:
  "split_crlf (rq_buffer r) = Some (line, rest) \<Longrightarrow>
     parse_chunk_trailers r =
       (if line = [] then (True, r\<lparr>rq_buffer := rest\<rparr>)
        else parse_chunk_trailers (r\<lparr>rq_buffer := rest\<rparr>))"
  by (simp add: parse_chunk_trailers.simps [of r])

lemma parse_chunk_trailers_frame:
  "parse_chunk_trailers r = (ok, t) \<Longrightarrow> \<exists>b. t = r\<lparr>rq_buffer := b\<rparr>"
proof (induction r rule: parse_chunk_trailers.induct)
  case (1 r)
  show ?case
  proof (cases "split_crlf (rq_buffer r)")
    case None
    with "1.prems" have "t = r\<lparr>rq_buffer := rq_buffer r\<rparr>" by (simp add: parse_chunk_trailers_wait)
    then show ?thesis by blast
  next
    case (Some lr)
    then obtain line rest where s: "split_crlf (rq_buffer r) = Some (line, rest)" by (cases lr) simp
    show ?thesis
    proof (cases "line = []")
      case True
      with s "1.prems" show ?thesis by (auto simp: parse_chunk_trailers_line)
    next
      case False
      with s "1.prems" have "parse_chunk_trailers (r\<lparr>rq_buffer := rest\<rparr>) = (ok, t)"
        by (simp add: parse_chunk_trailers_line)
      from "1.IH" [OF s refl refl False this] show ?thesis by auto
    qed
  qed
qed

lemma parse_chunked_body_turn:
  assumes "rq_chunked_state r \<noteq> CHUNK_TRAILERS"
  shows "parse_chunked_body r =
    (case chunk_turn r of (ok, r') \<Rightarrow> if ok then parse_chunked_body r' else (False, r'))"
  using assms by (simp add: parse_chunked_body.simps [of r] split: prod.splits bool.splits)

lemma parse_chunked_body_trailers:
  "rq_chunked_state r = CHUNK_TRAILERS \<Longrightarrow> parse_chunked_body r = parse_chunk_trailers r"
  by (simp add: parse_chunked_body.simps [of r])

lemma parse_chunked_body_rule [consumes 1, case_names trailers stop turn]:
  assumes run: "parse_chunked_body r = (ok, t)"
    and trailers: "\<And>r ok t. rq_chunked_state r = CHUNK_TRAILERS \<Longrightarrow>
                     parse_chunk_trailers r = (ok, t) \<Longrightarrow> P r ok t"
    and stop: "\<And>r t. rq_chunked_state r \<noteq> CHUNK_TRAILERS \<Longrightarrow> chunk_turn r = (False, t) \<Longrightarrow>
                 P r False t"
    and turn: "\<And>r r' ok t. rq_chunked_state r \<noteq> CHUNK_TRAILERS \<Longrightarrow> chunk_turn r = (True, r') \<Longrightarrow>
                 P r' ok t \<Longrightarrow> P r ok t"
  shows "P r ok t"
  using run
proof (induction r rule: parse_chunked_body.induct)
  case (1 r)
  show ?case
  proof (cases "rq_chunked_state r = CHUNK_TRAILERS")
    case True
    with "1.prems" trailers show ?thesis by (simp add: parse_chunked_body_trailers)
  next
    case nt: False
    obtain ok' r' where turn': "chunk_turn r = (ok', r')" by (cases "chunk_turn r")
    show ?thesis
    proof (cases ok')
      case True
      with nt turn' "1.prems" have "parse_chunked_body r' = (ok, t)"
        by (simp add: parse_chunked_body_turn)
      with "1.IH" [OF nt turn' [symmetric]] True turn [OF nt] turn' show ?thesis by simp
    next
      case False
      with nt turn' "1.prems" stop [OF nt] show ?thesis by (auto simp: parse_chunked_body_turn)
    qed
  qed
qed

definition chunk_frame :: "request \<Rightarrow> request \<Rightarrow> bool" where
  "chunk_frame r t \<longleftrightarrow>
     rq_is_chunked t = rq_is_chunked r \<and> rq_method t = rq_method r \<and> rq_target t = rq_target r \<and>
     rq_protocol t = rq_protocol r \<and> rq_headers t = rq_headers r \<and>
     rq_max_body_size t = rq_max_body_size r"

lemma chunk_turn_frame:
  "chunk_turn r = (ok, t) \<Longrightarrow>
     chunk_frame r t \<and> (ok \<longrightarrow> rq_state t = rq_state r) \<and>
     (\<not> ok \<longrightarrow> rq_state t \<in> {rq_state r, PARSSING_ERROR}) \<and>
     (\<not> ok \<longrightarrow> rq_chunked_state t = CHUNK_TRAILERS \<longleftrightarrow> rq_chunked_state r = CHUNK_TRAILERS)"
  by (auto simp: chunk_turn_def chunk_frame_def parse_chunk_size_def parse_chunk_data_def
      parse_chunk_data_crlf_def Let_def split: chunked_state.splits option.splits if_splits)

lemma parse_chunked_body_frame:
  "parse_chunked_body r = (ok, t) \<Longrightarrow>
     chunk_frame r t \<and> (ok \<longrightarrow> rq_state t = rq_state r) \<and>
     (\<not> ok \<longrightarrow> rq_state t \<in> {rq_state r, PARSSING_ERROR})"
proof (induction rule: parse_chunked_body_rule)
  case (trailers r ok t)
  then obtain b where "t = r\<lparr>rq_buffer := b\<rparr>" using parse_chunk_trailers_frame by blast
  then show ?case by (simp add: chunk_frame_def)
next
  case (stop r t)
  then show ?case using chunk_turn_frame [of r False t] by simp
next
  case (turn r r' ok t)
  then show ?case using chunk_turn_frame [of r True r'] by (auto simp: chunk_frame_def)
qed

lemma parse_body_frame:
  "parse_body r = (ok, t) \<Longrightarrow>
     chunk_frame r t \<and> (ok \<longrightarrow> rq_state t = rq_state r) \<and>
     (\<not> ok \<longrightarrow> rq_state t \<in> {rq_state r, PARSSING_ERROR})"
  using parse_chunked_body_frame [of r ok t]
  by (auto simp: parse_body_def Let_def chunk_frame_def split: if_splits)

lemma parse_request_line_frame:
  "parse_request_line r = (ok, t) \<Longrightarrow>
     rq_headers t = rq_headers r \<and> rq_body t = rq_body r \<and>
     rq_max_body_size t = rq_max_body_size r \<and> rq_is_chunked t = rq_is_chunked r \<and>
     rq_chunked_state t = rq_chunked_state r \<and> rq_chunk_remaining t = rq_chunk_remaining r \<and>
     (ok \<longrightarrow> rq_state t = rq_state r) \<and> (\<not> ok \<longrightarrow> rq_state t \<in> {rq_state r, PARSSING_ERROR})"
  by (auto simp: parse_request_line_def Let_def split: option.splits if_splits)

lemma parse_loop_line:
  "rq_state r = PARSSING_REQUEST_LINE \<Longrightarrow>
     parse_loop r = (case parse_request_line r of (ok, r') \<Rightarrow>
       if ok then parse_loop (r'\<lparr>rq_state := PARSSING_HEADERS\<rparr>) else (False, r'))"
  by (simp add: parse_loop.simps [of r] split: prod.splits bool.splits)

lemma parse_loop_headers:
  "rq_state r = PARSSING_HEADERS \<Longrightarrow>
     parse_loop r = (case parse_headers r of (ok, r') \<Rightarrow>
       if ok then parse_loop (after_headers r') else (False, r'))"
  by (simp add: parse_loop.simps [of r] split: prod.splits bool.splits)

lemma parse_loop_final:
  "rq_state r = PARSSING_COMPLETE \<Longrightarrow> parse_loop r = (True, r)"
  "rq_state r = PARSSING_ERROR \<Longrightarrow> parse_loop r = (False, r)"
  by (simp_all add: parse_loop.simps [of r])

lemma parse_loop_body:
  "rq_state r = PARSSING_BODY \<Longrightarrow>
     parse_loop r = (case parse_body r of (ok, r') \<Rightarrow>
       if ok then (True, r'\<lparr>rq_state := PARSSING_COMPLETE\<rparr>) else (False, r'))"
  by (simp add: parse_loop.simps [of r] parse_loop_final split: prod.splits bool.splits)

text \<open>Induction along the loop: one case per state, with the step that was taken.\<close>

lemma parse_loop_rule [consumes 1, case_names line_stop line headers_stop headers body_stop body complete error]:
  assumes run: "parse_loop r = (ok, t)"
    and "\<And>r t. rq_state r = PARSSING_REQUEST_LINE \<Longrightarrow> parse_request_line r = (False, t) \<Longrightarrow> P r False t"
    and "\<And>r r' ok t. rq_state r = PARSSING_REQUEST_LINE \<Longrightarrow> parse_request_line r = (True, r') \<Longrightarrow>
           P (r'\<lparr>rq_state := PARSSING_HEADERS\<rparr>) ok t \<Longrightarrow> P r ok t"
    and "\<And>r t. rq_state r = PARSSING_HEADERS \<Longrightarrow> parse_headers r = (False, t) \<Longrightarrow> P r False t"
    and "\<And>r r' ok t. rq_state r = PARSSING_HEADERS \<Longrightarrow> parse_headers r = (True, r') \<Longrightarrow>
           P (after_headers r') ok t \<Longrightarrow> P r ok t"
    and "\<And>r t. rq_state r = PARSSING_BODY \<Longrightarrow> parse_body r = (False, t) \<Longrightarrow> P r False t"
    and "\<And>r r'. rq_state r = PARSSING_BODY \<Longrightarrow> parse_body r = (True, r') \<Longrightarrow>
           P r True (r'\<lparr>rq_state := PARSSING_COMPLETE\<rparr>)"
    and "\<And>r. rq_state r = PARSSING_COMPLETE \<Longrightarrow> P r True r"
    and "\<And>r. rq_state r = PARSSING_ERROR \<Longrightarrow> P r False r"
  shows "P r ok t"
  using run
proof (induction r rule: parse_loop.induct)
  case (1 r)
  show ?case
  proof (cases "rq_state r")
    case PARSSING_REQUEST_LINE
    obtain ok' r' where st: "parse_request_line r = (ok', r')" by (cases "parse_request_line r")
    show ?thesis
      using "1.prems" "1.IH"(1) [OF PARSSING_REQUEST_LINE st [symmetric]] assms(2,3) [OF PARSSING_REQUEST_LINE]
      by (cases ok') (auto simp: parse_loop_line PARSSING_REQUEST_LINE st)
  next
    case PARSSING_HEADERS
    obtain ok' r' where st: "parse_headers r = (ok', r')" by (cases "parse_headers r")
    show ?thesis
      using "1.prems" "1.IH"(2) [OF PARSSING_HEADERS st [symmetric]] assms(4,5) [OF PARSSING_HEADERS]
      by (cases ok') (auto simp: parse_loop_headers PARSSING_HEADERS st)
  next
    case PARSSING_BODY
    obtain ok' r' where st: "parse_body r = (ok', r')" by (cases "parse_body r")
    show ?thesis
      using "1.prems" assms(6,7) [OF PARSSING_BODY]
      by (cases ok') (auto simp: parse_loop_body PARSSING_BODY st)
  next
    case PARSSING_COMPLETE
    with "1.prems" assms(8) show ?thesis by (auto simp: parse_loop_final)
  next
    case PARSSING_ERROR
    with "1.prems" assms(9) show ?thesis by (auto simp: parse_loop_final)
  qed
qed

lemma parse_loop_done: "parse_loop r = (ok, t) \<Longrightarrow> ok \<longleftrightarrow> rq_state t = PARSSING_COMPLETE"
proof (induction rule: parse_loop_rule)
  case (line_stop r t)
  then show ?case using parse_request_line_frame [of r False t] by auto
next
  case (headers_stop r t)
  then show ?case using parse_headers_frame [of r False t] by auto
next
  case (body_stop r t)
  then show ?case using parse_body_frame [of r False t] by auto
qed auto

end
