(* ===== verification/Incremental.thy ===== *)
theory Incremental
  imports Prelude
begin

text \<open>
  The contract of a parser that receives its input in pieces. A stage consumes a state that holds
  unread input; \<open>feed b s\<close> appends \<open>b\<close> to that input. The laws say that a stage never acts on
  input it has not seen: a stage that finished or failed would have done the same with more input
  behind it, and a stage that stopped to wait can be restarted where it stopped. Under these laws
  the way the network cuts the input into pieces cannot be observed.
\<close>

locale resumable_stage =
  fixes feed :: "'b list \<Rightarrow> 's \<Rightarrow> 's"
    and stage :: "'s \<Rightarrow> bool \<times> 's"
    and failed :: "'s \<Rightarrow> bool"
  assumes feed_Nil: "feed [] s = s"
    and feed_feed: "feed b (feed a s) = feed (a @ b) s"
    and failed_feed: "failed (feed b s) = failed s"
    and done_feed: "\<not> failed s \<Longrightarrow> stage s = (True, t) \<Longrightarrow> stage (feed b s) = (True, feed b t)"
    and fail_feed: "\<not> failed s \<Longrightarrow> stage s = (False, t) \<Longrightarrow> failed t \<Longrightarrow>
                      stage (feed b s) = (False, feed b t)"
    and wait_feed: "\<not> failed s \<Longrightarrow> stage s = (False, t) \<Longrightarrow> \<not> failed t \<Longrightarrow>
                      stage (feed b s) = stage (feed b t)"
begin

lemma stage_feed:
  assumes "\<not> failed s"
  shows "stage (feed b s) =
    (case stage s of
       (True, t) \<Rightarrow> (True, feed b t)
     | (False, t) \<Rightarrow> if failed t then (False, feed b t) else stage (feed b t))"
  using assms done_feed fail_feed wait_feed by (auto split: prod.splits bool.splits)

lemma wait_idle:
  assumes "\<not> failed s" and "stage s = (False, t)" and "\<not> failed t"
  shows "stage t = (False, t)"
  using wait_feed [OF assms, of "[]"] assms by (simp add: feed_Nil)

end

text \<open>
  A whole machine is a stage whose two kinds of final state absorb further input: what arrives
  after the end or after an error is kept unread.
\<close>

locale resumable_machine = resumable_stage +
  assumes done_final: "stage s = (True, t) \<Longrightarrow> stage (feed b t) = (True, feed b t)"
    and fail_final: "failed s \<Longrightarrow> stage s = (False, s)"
begin

lemma stage_split: "stage (feed b (snd (stage s))) = stage (feed b s)"
proof (cases "failed s")
  case True
  then show ?thesis by (simp add: fail_final)
next
  case False
  obtain ok t where st: "stage s = (ok, t)" by (cases "stage s")
  show ?thesis
  proof (cases ok)
    case True
    with st have s: "stage s = (True, t)" by simp
    show ?thesis by (simp add: s done_feed [OF False s] done_final [OF s])
  next
    case nok: False
    with st have s: "stage s = (False, t)" by simp
    show ?thesis
    proof (cases "failed t")
      case True
      then show ?thesis
        by (simp add: s fail_feed [OF False s True] fail_final failed_feed)
    next
      case nf: False
      then show ?thesis by (simp add: s wait_feed [OF False s nf])
    qed
  qed
qed

lemma feed_split: "stage (feed b (snd (stage (feed a s)))) = stage (feed (a @ b) s)"
  by (simp add: stage_split feed_feed)

lemma fragments:
  assumes "ds \<noteq> []"
  shows "foldl (\<lambda>s d. snd (stage (feed d s))) s ds = snd (stage (feed (concat ds) s))"
  using assms
proof (induction ds rule: rev_induct)
  case Nil
  then show ?case by simp
next
  case (snoc d ds)
  then show ?case by (cases "ds = []") (simp_all add: feed_split)
qed

lemma settled: "stage (snd (stage s)) = stage s"
  using stage_split [of "[]" s] by (simp add: feed_Nil)

end

end
