(* ===== verification/RequestIncremental.thy ===== *)
theory RequestIncremental
  imports Request Incremental
begin

text \<open>
  Each parsing step of \<open>HTTPRequest\<close> provides the contract \<open>resumable_stage\<close>, and the whole parser
  provides \<open>resumable_machine\<close>, with the receive buffer as the unread input and
  \<open>PARSSING_ERROR\<close> as failure. The independence of the result from packet boundaries follows.
\<close>

definition feed :: "string \<Rightarrow> request \<Rightarrow> request" where
  "feed b r = r\<lparr>rq_buffer := rq_buffer r @ b\<rparr>"

named_theorems feed_simps "how feeding commutes with the request's selectors and updates"

lemma feed_select [feed_simps]:
  "rq_buffer (feed b r) = rq_buffer r @ b"
  "rq_state (feed b r) = rq_state r"
  "rq_chunked_state (feed b r) = rq_chunked_state r"
  "rq_chunk_remaining (feed b r) = rq_chunk_remaining r"
  "rq_is_chunked (feed b r) = rq_is_chunked r"
  "rq_method (feed b r) = rq_method r"
  "rq_target (feed b r) = rq_target r"
  "rq_protocol (feed b r) = rq_protocol r"
  "rq_headers (feed b r) = rq_headers r"
  "rq_body (feed b r) = rq_body r"
  "rq_max_body_size (feed b r) = rq_max_body_size r"
  "rq_body_too_large (feed b r) = rq_body_too_large r"
  by (simp_all add: feed_def)

lemma feed_Nil [feed_simps]: "feed [] r = r"
  by (simp add: feed_def)

lemma feed_feed [feed_simps]: "feed b (feed a r) = feed (a @ b) r"
  by (simp add: feed_def)

lemma is_error_feed [feed_simps]: "is_error (feed b r) = is_error r"
  by (simp add: is_error_def feed_simps)

lemma get_header_value_feed [feed_simps]: "get_header_value (feed b r) k = get_header_value r k"
  by (simp add: get_header_value_def feed_simps)

lemma feed_update [feed_simps]:
  "feed b r\<lparr>rq_state := s\<rparr> = feed b (r\<lparr>rq_state := s\<rparr>)"
  "feed b r\<lparr>rq_headers := h\<rparr> = feed b (r\<lparr>rq_headers := h\<rparr>)"
  "feed b r\<lparr>rq_is_chunked := c\<rparr> = feed b (r\<lparr>rq_is_chunked := c\<rparr>)"
  by (simp_all add: feed_def)

lemma feed_set_buffer:
  "feed b r\<lparr>rq_buffer := x @ b\<rparr> = feed b (r\<lparr>rq_buffer := x\<rparr>)"
  by (simp add: feed_def)

lemma parse_feed: "parse r d = parse_loop (feed d r)"
  by (simp add: parse_def feed_def)

section \<open>The line-oriented steps\<close>

lemma request_line_wait: "split_crlf (rq_buffer r) = None \<Longrightarrow> parse_request_line r = (False, r)"
  by (simp add: parse_request_line_def)

lemma request_line_feed:
  assumes "split_crlf (rq_buffer r) = Some (line, rest)" and "parse_request_line r = (ok, t)"
  shows "parse_request_line (feed b r) = (ok, feed b t) \<and> (\<not> ok \<longrightarrow> is_error t)"
proof -
  have "split_crlf (rq_buffer (feed b r)) = Some (line, rest @ b)"
    using assms(1) by (simp add: feed_simps split_crlf_append)
  with assms show ?thesis
    by (auto simp: parse_request_line_def Let_def feed_def is_error_def
        split: option.splits if_splits)
qed

interpretation request_line: resumable_stage feed parse_request_line is_error
proof (unfold_locales, goal_cases)
  case (4 s t b)
  then show ?case
    by (cases "split_crlf (rq_buffer s)") (auto simp: request_line_wait dest: request_line_feed)
next
  case (5 s t b)
  then show ?case
    by (cases "split_crlf (rq_buffer s)") (auto simp: request_line_wait dest: request_line_feed)
next
  case (6 s t b)
  then show ?case
    by (cases "split_crlf (rq_buffer s)") (auto simp: request_line_wait dest: request_line_feed)
qed (simp_all add: feed_simps)

lemma split_crlf_feed:
  "split_crlf (rq_buffer r) = Some (line, rest) \<Longrightarrow>
     split_crlf (rq_buffer (feed b r)) = Some (line, rest @ b)"
  by (simp add: feed_simps split_crlf_append)

lemma parse_headers_feed:
  "parse_headers r = (ok, t) \<Longrightarrow> \<not> is_error r \<Longrightarrow>
     (ok \<longrightarrow> parse_headers (feed b r) = (True, feed b t)) \<and>
     (\<not> ok \<longrightarrow> is_error t \<longrightarrow> parse_headers (feed b r) = (False, feed b t)) \<and>
     (\<not> ok \<longrightarrow> \<not> is_error t \<longrightarrow> parse_headers (feed b r) = parse_headers (feed b t))"
proof (induction rule: parse_headers_rule)
  case (blank r rest)
  then show ?case by (simp add: parse_headers_blank [OF split_crlf_feed] feed_set_buffer)
next
  case (bad r line rest)
  then show ?case
    by (simp add: parse_headers_bad [OF split_crlf_feed] feed_set_buffer feed_simps is_error_def)
next
  case (field r line rest colon ok t)
  then show ?case
    by (simp add: parse_headers_field [OF split_crlf_feed] feed_set_buffer feed_simps is_error_def)
qed simp

interpretation header_fields: resumable_stage feed parse_headers is_error
  by unfold_locales (auto simp: feed_simps dest: parse_headers_feed)

lemma parse_chunk_trailers_feed:
  "parse_chunk_trailers r = (ok, t) \<Longrightarrow>
     (ok \<longrightarrow> parse_chunk_trailers (feed b r) = (True, feed b t)) \<and>
     (\<not> ok \<longrightarrow> parse_chunk_trailers (feed b r) = parse_chunk_trailers (feed b t))"
proof (induction r rule: parse_chunk_trailers.induct)
  case (1 r)
  show ?case
  proof (cases "split_crlf (rq_buffer r)")
    case None
    with "1.prems" show ?thesis by (simp add: parse_chunk_trailers_wait)
  next
    case (Some lr)
    then obtain line rest where s: "split_crlf (rq_buffer r) = Some (line, rest)" by (cases lr) simp
    note sb = parse_chunk_trailers_line [OF split_crlf_feed [OF s, of b]]
    show ?thesis
    proof (cases "line = []")
      case True
      with "1.prems" sb show ?thesis
        by (auto simp: parse_chunk_trailers_line [OF s] feed_set_buffer)
    next
      case False
      with "1.prems" have "parse_chunk_trailers (r\<lparr>rq_buffer := rest\<rparr>) = (ok, t)"
        by (simp add: parse_chunk_trailers_line [OF s])
      from "1.IH" [OF s refl refl False this] False sb show ?thesis
        by (simp add: feed_set_buffer)
    qed
  qed
qed

lemma trailers_error: "parse_chunk_trailers r = (ok, t) \<Longrightarrow> is_error t = is_error r"
  using parse_chunk_trailers_frame by (fastforce simp: is_error_def)

interpretation chunk_trailers: resumable_stage feed parse_chunk_trailers is_error
  by unfold_locales (auto simp: feed_simps trailers_error dest: parse_chunk_trailers_feed)

section \<open>The chunked body\<close>

lemma chunk_size_feed:
  assumes "parse_chunk_size r = (ok, t)"
  shows "if split_crlf (rq_buffer r) = None then \<not> ok \<and> t = r
         else parse_chunk_size (feed b r) = (ok, feed b t) \<and> (\<not> ok \<longrightarrow> is_error t)"
proof (cases "split_crlf (rq_buffer r)")
  case None
  with assms show ?thesis by (simp add: parse_chunk_size_def)
next
  case (Some lr)
  then obtain line rest where s: "split_crlf (rq_buffer r) = Some (line, rest)"
    by (cases lr) simp
  then have "split_crlf (rq_buffer (feed b r)) = Some (line, rest @ b)"
    by (simp add: feed_simps split_crlf_append)
  with s assms show ?thesis
    by (auto simp: parse_chunk_size_def Let_def feed_def is_error_def
        split: option.splits if_splits)
qed

text \<open>\<open>chunk_remaining_ -= buffer_.length()\<close> does not wrap: it is done only when fewer bytes
  than \<open>chunk_remaining_\<close> are there.\<close>

lemma unat_minus_length:
  fixes c :: size_t
  assumes "l \<le> unat c"
  shows "unat (c - word_of_nat l) = unat c - l"
proof -
  have "l < 2 ^ 64" using assms unsigned_less [of c, where 'a = nat] by simp
  then have l: "unat (word_of_nat l :: size_t) = l"
    by (simp add: unat_of_nat take_bit_eq_mod)
  then have "word_of_nat l \<le> c" using assms by (simp add: word_le_nat_alt)
  then show ?thesis using l by (simp add: unat_sub)
qed

lemma chunk_data_feed:
  assumes "parse_chunk_data r = (ok, t)"
  shows "if unat (rq_chunk_remaining r) \<le> length (rq_buffer r)
         then parse_chunk_data (feed b r) = (ok, feed b t) \<and> (\<not> ok \<longrightarrow> is_error t)
         else \<not> ok \<and> is_error t = is_error r \<and> rq_chunked_state t = rq_chunked_state r \<and>
              parse_chunk_data (feed b r) = parse_chunk_data (feed b t)"
proof (cases "unat (rq_chunk_remaining r) \<le> length (rq_buffer r)")
  case True
  with assms show ?thesis
    by (auto simp: parse_chunk_data_def Let_def feed_def is_error_def substr_def split: if_splits)
next
  case False
  let ?l = "length (rq_buffer r)" and ?c = "rq_chunk_remaining r"
  have c: "unat (?c - word_of_nat ?l) = unat ?c - ?l"
    using False by (intro unat_minus_length) simp
  have t: "t = r\<lparr>rq_chunk_remaining := ?c - word_of_nat ?l, rq_body := rq_body r @ rq_buffer r,
                 rq_buffer := []\<rparr>" and ok: "\<not> ok"
    using assms False by (auto simp: parse_chunk_data_def)
  have "parse_chunk_data (feed b r) = parse_chunk_data (feed b t)"
  proof (cases "unat ?c \<le> ?l + length b")
    case True
    then have "unat ?c - ?l \<le> length b" by arith
    with False True show ?thesis
      by (simp add: t c parse_chunk_data_def feed_def substr_def Let_def not_le)
  next
    case more: False
    then have "\<not> unat ?c - ?l \<le> length b" by arith
    with more show ?thesis
      by (simp add: t c parse_chunk_data_def feed_def algebra_simps)
  qed
  with False ok show ?thesis by (simp add: t is_error_def)
qed

lemma chunk_crlf_feed:
  assumes "parse_chunk_data_crlf r = (ok, t)"
  shows "if length (rq_buffer r) < 2 then \<not> ok \<and> t = r
         else parse_chunk_data_crlf (feed b r) = (ok, feed b t) \<and> (\<not> ok \<longrightarrow> is_error t)"
  using assms
  by (auto simp: parse_chunk_data_crlf_def feed_def is_error_def nth_append split: if_splits)

lemma chunk_turn_feed:
  assumes "chunk_turn r = (ok, t)" and "\<not> is_error r"
  shows "(ok \<longrightarrow> chunk_turn (feed b r) = (True, feed b t) \<and> \<not> is_error t) \<and>
         (\<not> ok \<longrightarrow> is_error t \<longrightarrow> chunk_turn (feed b r) = (False, feed b t)) \<and>
         (\<not> ok \<longrightarrow> \<not> is_error t \<longrightarrow> chunk_turn (feed b r) = chunk_turn (feed b t))"
proof -
  have e: "ok \<Longrightarrow> \<not> is_error t"
    using chunk_turn_frame [OF assms(1)] assms(2) by (simp add: is_error_def)
  show ?thesis
  proof (cases "rq_chunked_state r")
  case CHUNK_SIZE
  with assms chunk_size_feed [of r ok t b] show ?thesis
    by (auto simp: chunk_turn_def feed_simps e split: if_splits)
next
  case CHUNK_DATA
  with assms chunk_data_feed [of r ok t b] show ?thesis
    by (auto simp: chunk_turn_def feed_simps e split: if_splits)
next
  case CHUNK_DATA_CRLF
  with assms chunk_crlf_feed [of r ok t b] show ?thesis
    by (auto simp: chunk_turn_def feed_simps e split: if_splits)
next
  case CHUNK_TRAILERS
  with assms show ?thesis by (simp add: chunk_turn_def)
  qed
qed

lemma parse_chunked_body_feed:
  "parse_chunked_body r = (ok, t) \<Longrightarrow> \<not> is_error r \<Longrightarrow>
     (ok \<longrightarrow> parse_chunked_body (feed b r) = (True, feed b t)) \<and>
     (\<not> ok \<longrightarrow> is_error t \<longrightarrow> parse_chunked_body (feed b r) = (False, feed b t)) \<and>
     (\<not> ok \<longrightarrow> \<not> is_error t \<longrightarrow> parse_chunked_body (feed b r) = parse_chunked_body (feed b t))"
proof (induction rule: parse_chunked_body_rule)
  case (trailers r ok t)
  then have "rq_chunked_state t = CHUNK_TRAILERS" using parse_chunk_trailers_frame by fastforce
  with trailers show ?case
    using parse_chunk_trailers_feed [of r ok t b] trailers_error [of r ok t]
    by (simp add: parse_chunked_body_trailers feed_simps)
next
  case (stop r t)
  then have "rq_chunked_state t \<noteq> CHUNK_TRAILERS" using chunk_turn_frame by blast
  with stop chunk_turn_feed [OF stop(2,3), of b] show ?case
    by (simp add: parse_chunked_body_turn feed_simps)
next
  case (turn r r' ok t)
  with chunk_turn_feed [OF turn(2,4), of b] show ?case
    by (simp add: parse_chunked_body_turn feed_simps)
qed

interpretation chunked_body: resumable_stage feed parse_chunked_body is_error
  by unfold_locales (auto simp: feed_simps dest: parse_chunked_body_feed)

section \<open>The body and the whole parser\<close>

lemma body_chunked: "rq_is_chunked r \<Longrightarrow> parse_body r = parse_chunked_body r"
  by (simp add: parse_body_def)

text \<open>The body with a \<open>Content-Length\<close>: the four outcomes of \<open>parse_body\<close>.\<close>

definition content_length :: "request \<Rightarrow> size_t" where
  "content_length r = atol_size (get_header_value r ''Content-Length'')"

lemma plain_body_cases:
  assumes "\<not> rq_is_chunked r"
  obtains (none) "get_header_value r ''Content-Length'' = []" "parse_body r = (True, r)"
  | (large) "get_header_value r ''Content-Length'' \<noteq> []" "0 < rq_max_body_size r"
      "rq_max_body_size r < content_length r"
      "parse_body r = (False, r\<lparr>rq_body_too_large := True, rq_state := PARSSING_ERROR\<rparr>)"
  | (full) "get_header_value r ''Content-Length'' \<noteq> []"
      "rq_max_body_size r = 0 \<or> content_length r \<le> rq_max_body_size r"
      "unat (content_length r) \<le> length (rq_body r)" "parse_body r = (True, r)"
  | (enough) n where "get_header_value r ''Content-Length'' \<noteq> []"
      "rq_max_body_size r = 0 \<or> content_length r \<le> rq_max_body_size r"
      "unat (content_length r) = length (rq_body r) + n" "n \<le> length (rq_buffer r)" "0 < n"
      "parse_body r = (True, r\<lparr>rq_body := rq_body r @ take n (rq_buffer r),
                               rq_buffer := drop n (rq_buffer r)\<rparr>)"
  | (wait) "get_header_value r ''Content-Length'' \<noteq> []"
      "rq_max_body_size r = 0 \<or> content_length r \<le> rq_max_body_size r"
      "length (rq_body r) + length (rq_buffer r) < unat (content_length r)"
      "parse_body r = (False, r\<lparr>rq_body := rq_body r @ rq_buffer r, rq_buffer := []\<rparr>)"
proof (cases "get_header_value r ''Content-Length'' = []")
  case True
  with assms show ?thesis by (intro none) (simp_all add: parse_body_def)
next
  case h: False
  show ?thesis
  proof (cases "0 < rq_max_body_size r \<and> rq_max_body_size r < content_length r")
    case True
    with assms h show ?thesis by (intro large) (simp_all add: parse_body_def content_length_def Let_def)
  next
    case nl: False
    then have lim: "rq_max_body_size r = 0 \<or> content_length r \<le> rq_max_body_size r"
      by (auto simp: word_gt_0)
    show ?thesis
    proof (cases "unat (content_length r) \<le> length (rq_body r)")
      case True
      with assms h nl lim show ?thesis
        by (intro full) (auto simp: parse_body_def content_length_def Let_def)
    next
      case more: False
      let ?n = "unat (content_length r) - length (rq_body r)"
      show ?thesis
      proof (cases "?n \<le> length (rq_buffer r)")
        case True
        with assms h nl lim more show ?thesis
          by (intro enough [of ?n]) (auto simp: parse_body_def content_length_def substr_def Let_def)
      next
        case False
        with assms h nl lim more show ?thesis
          by (intro wait) (auto simp: parse_body_def content_length_def Let_def)
      qed
    qed
  qed
qed

lemma content_length_feed [feed_simps]: "content_length (feed b r) = content_length r"
  by (simp add: content_length_def feed_simps)

lemma plain_body_simps:
  assumes "\<not> rq_is_chunked r" and "get_header_value r ''Content-Length'' \<noteq> []"
    and "rq_max_body_size r = 0 \<or> content_length r \<le> rq_max_body_size r"
    and "length (rq_body r) < unat (content_length r)"
  shows "parse_body r =
    (let n = unat (content_length r) - length (rq_body r) in
     if n \<le> length (rq_buffer r)
     then (True, r\<lparr>rq_body := rq_body r @ take n (rq_buffer r), rq_buffer := drop n (rq_buffer r)\<rparr>)
     else (False, r\<lparr>rq_body := rq_body r @ rq_buffer r, rq_buffer := []\<rparr>))"
  using assms by (auto simp: parse_body_def content_length_def substr_def Let_def not_less)

lemma plain_body_feed:
  assumes plain: "\<not> rq_is_chunked r" and run: "parse_body r = (ok, t)" and ne: "\<not> is_error r"
  shows "(ok \<longrightarrow> parse_body (feed b r) = (True, feed b t)) \<and>
         (\<not> ok \<longrightarrow> is_error t \<longrightarrow> parse_body (feed b r) = (False, feed b t)) \<and>
         (\<not> ok \<longrightarrow> \<not> is_error t \<longrightarrow> parse_body (feed b r) = parse_body (feed b t))"
  using plain
proof (cases rule: plain_body_cases)
  case none
  with plain run show ?thesis by (auto simp: parse_body_def feed_simps)
next
  case large
  with plain run show ?thesis
    by (auto simp: parse_body_def feed_simps content_length_def is_error_def Let_def)
next
  case full
  with plain run show ?thesis
    by (auto simp: parse_body_def feed_simps content_length_def not_less Let_def)
next
  case (enough n)
  with run have t: "ok" "t = r\<lparr>rq_body := rq_body r @ take n (rq_buffer r),
                               rq_buffer := drop n (rq_buffer r)\<rparr>" by simp_all
  have u: "feed b t = feed b r\<lparr>rq_body := rq_body r @ take n (rq_buffer r),
                              rq_buffer := drop n (rq_buffer r) @ b\<rparr>"
    by (simp add: t feed_def)
  have "parse_body (feed b r) = (True, feed b t)"
    unfolding u using plain enough
    by (subst plain_body_simps) (auto simp: feed_simps Let_def)
  with t show ?thesis by simp
next
  case wait
  let ?n = "unat (content_length r) - length (rq_body r)"
  from run wait(4) have t: "\<not> ok" "t = r\<lparr>rq_body := rq_body r @ rq_buffer r, rq_buffer := []\<rparr>"
    by simp_all
  have ct: "content_length t = content_length r"
    "get_header_value t ''Content-Length'' = get_header_value r ''Content-Length''"
    "rq_body t = rq_body r @ rq_buffer r" "rq_buffer t = []" "rq_is_chunked t = rq_is_chunked r"
    "rq_max_body_size t = rq_max_body_size r"
    by (simp_all add: t content_length_def get_header_value_def)
  have nb: "\<not> ?n \<le> length (rq_buffer r)" using wait(3) by arith
  have "parse_body (feed b r) = parse_body (feed b t)"
  proof (cases "?n \<le> length (rq_buffer r) + length b")
    case True
    have "parse_body (feed b t) = (True, feed b t\<lparr>rq_body := rq_body t @
        take (?n - length (rq_buffer r)) b, rq_buffer := drop (?n - length (rq_buffer r)) b\<rparr>)"
      using plain wait True
      by (subst plain_body_simps) (auto simp: feed_simps ct Let_def)
    moreover have "parse_body (feed b r) = (True, feed b r\<lparr>rq_body := rq_body r @
        take ?n (rq_buffer r @ b), rq_buffer := drop ?n (rq_buffer r @ b)\<rparr>)"
      using plain wait True
      by (subst plain_body_simps) (auto simp: feed_simps Let_def)
    ultimately show ?thesis using nb by (simp add: t feed_def)
  next
    case False
    have "parse_body (feed b t) = (False, feed b t\<lparr>rq_body := rq_body t @ b, rq_buffer := []\<rparr>)"
      using plain wait False
      by (subst plain_body_simps) (auto simp: feed_simps ct Let_def)
    moreover have "parse_body (feed b r) =
        (False, feed b r\<lparr>rq_body := rq_body r @ rq_buffer r @ b, rq_buffer := []\<rparr>)"
      using plain wait False
      by (subst plain_body_simps) (auto simp: feed_simps Let_def)
    ultimately show ?thesis by (simp add: t feed_def)
  qed
  with t ne show ?thesis by (simp add: is_error_def)
qed

interpretation body_stage: resumable_stage feed parse_body is_error
proof (unfold_locales, goal_cases)
  case (4 s t b)
  then show ?case
    by (cases "rq_is_chunked s")
       (simp_all add: body_chunked feed_simps chunked_body.done_feed plain_body_feed)
next
  case (5 s t b)
  then show ?case
    by (cases "rq_is_chunked s")
       (simp_all add: body_chunked feed_simps chunked_body.fail_feed plain_body_feed)
next
  case (6 s t b)
  then have "rq_is_chunked t = rq_is_chunked s"
    using parse_body_frame [of s False t] by (simp add: chunk_frame_def)
  with 6 show ?case
    using chunked_body.wait_feed [of s t b] plain_body_feed [of s False t b]
    by (cases "rq_is_chunked s") (simp_all add: body_chunked feed_simps)
qed (simp_all add: feed_simps)

lemma after_headers_feed [feed_simps]: "after_headers (feed b r) = feed b (after_headers r)"
  by (simp add: after_headers_def has_body_def feed_simps)

lemma parse_loop_feed:
  "parse_loop r = (ok, t) \<Longrightarrow> \<not> is_error r \<Longrightarrow>
     (ok \<longrightarrow> parse_loop (feed b r) = (True, feed b t)) \<and>
     (\<not> ok \<longrightarrow> is_error t \<longrightarrow> parse_loop (feed b r) = (False, feed b t)) \<and>
     (\<not> ok \<longrightarrow> \<not> is_error t \<longrightarrow> parse_loop (feed b r) = parse_loop (feed b t))"
proof (induction rule: parse_loop_rule)
  case (line_stop r t)
  then show ?case
    using request_line.fail_feed [of r t b] request_line.wait_feed [of r t b]
      parse_request_line_frame [of r False t]
    by (auto simp: parse_loop_line feed_simps is_error_def)
next
  case (line r r' ok t)
  then show ?case
    using request_line.done_feed [of r r' b] parse_request_line_frame [of r True r']
    by (simp add: parse_loop_line feed_simps is_error_def)
next
  case (headers_stop r t)
  then show ?case
    using header_fields.fail_feed [of r t b] header_fields.wait_feed [of r t b]
      parse_headers_frame [of r False t]
    by (auto simp: parse_loop_headers feed_simps is_error_def)
next
  case (headers r r' ok t)
  moreover have "\<not> is_error (after_headers r')"
    by (simp add: after_headers_def is_error_def)
  ultimately show ?case
    using header_fields.done_feed [of r r' b]
    by (simp add: parse_loop_headers feed_simps)
next
  case (body_stop r t)
  then show ?case
    using body_stage.fail_feed [of r t b] body_stage.wait_feed [of r t b]
      parse_body_frame [of r False t]
    by (auto simp: parse_loop_body feed_simps is_error_def)
next
  case (body r r')
  then show ?case
    using body_stage.done_feed [of r r' b] by (simp add: parse_loop_body feed_simps)
next
  case (complete r)
  then show ?case by (simp add: parse_loop_final feed_simps)
next
  case (error r)
  then show ?case by (simp add: is_error_def)
qed

interpretation request_parser: resumable_machine feed parse_loop is_error
proof (unfold_locales, goal_cases)
  case (7 s t b)
  then have "rq_state t = PARSSING_COMPLETE" using parse_loop_done by blast
  then show ?case by (simp add: parse_loop_final feed_simps)
next
  case (8 s)
  then show ?case by (simp add: parse_loop_final is_error_def)
qed (auto simp: feed_simps dest: parse_loop_feed)

section \<open>Independence from packet boundaries\<close>

text \<open>
  C1. However the bytes of a request are cut into the pieces that \<open>read\<close> returns, feeding the
  pieces to \<open>parse\<close> one by one gives the result of one call with all the bytes: the last call
  returns the same \<open>bool\<close> and leaves the same method, target, headers, body, unread rest, error
  flags and progress. It holds from every parser state and for every stream, malformed ones too.
\<close>

theorem parse_fragmentation: "parse (parse_all r ds) d = parse r (concat ds @ d)"
proof (cases "ds = []")
  case True
  then show ?thesis by (simp add: parse_all_def)
next
  case False
  then have "parse_all r ds = snd (parse_loop (feed (concat ds) r))"
    unfolding parse_all_def parse_feed by (rule request_parser.fragments)
  then show ?thesis by (simp add: parse_feed request_parser.feed_split)
qed

end
