(* ===== verification/RequestLimits.thy ===== *)
theory RequestLimits
  imports RequestIncremental
begin

text \<open>
  Safety of the request parser: the order of the parse states and the proof that parsing only
  moves forward, the body limit and the header-name invariants kept by every call of \<open>parse\<close>, the
  finality of errors, the value a chunk-size line denotes, and the gap in the body limit while a
  chunk is still incomplete.
\<close>

section \<open>The order of the parse states\<close>

instantiation parse_state :: linorder
begin

definition less_eq_parse_state :: "parse_state \<Rightarrow> parse_state \<Rightarrow> bool" where
  "less_eq_parse_state a b \<longleftrightarrow> state_rank a \<le> state_rank b"

definition less_parse_state :: "parse_state \<Rightarrow> parse_state \<Rightarrow> bool" where
  "less_parse_state a b \<longleftrightarrow> state_rank a < state_rank b"

instance
proof
  fix x y z :: parse_state
  show "x < y \<longleftrightarrow> x \<le> y \<and> \<not> y \<le> x"
    by (auto simp: less_eq_parse_state_def less_parse_state_def)
  show "x \<le> x" by (simp add: less_eq_parse_state_def)
  show "x \<le> y \<Longrightarrow> y \<le> z \<Longrightarrow> x \<le> z" by (simp add: less_eq_parse_state_def)
  show "x \<le> y \<Longrightarrow> y \<le> x \<Longrightarrow> x = y"
    by (cases x; cases y) (simp_all add: less_eq_parse_state_def state_rank_def)
  show "x \<le> y \<or> y \<le> x" by (auto simp: less_eq_parse_state_def)
qed

end

lemmas state_order = less_eq_parse_state_def less_parse_state_def state_rank_def

lemma parse_loop_forward: "parse_loop r = (ok, t) \<Longrightarrow> rq_state r \<le> rq_state t"
proof (induction rule: parse_loop_rule)
  case (line_stop r t)
  then show ?case using parse_request_line_frame [of r False t] by (auto simp: state_order)
next
  case (line r r' ok t)
  then show ?case by (auto simp: state_order split: parse_state.splits)
next
  case (headers_stop r t)
  then show ?case using parse_headers_frame [of r False t] by (auto simp: state_order)
next
  case (headers r r' ok t)
  then show ?case by (auto simp: state_order after_headers_def split: parse_state.splits if_splits)
next
  case (body_stop r t)
  then show ?case using parse_body_frame [of r False t] by (auto simp: state_order)
qed (simp_all add: state_order)

text \<open>
  Parsing only moves forward: in the order request line, headers, body, complete, error, a
  call of \<open>parse\<close> never leaves the parser in an earlier state than it found it.
\<close>

theorem parse_state_forward: "rq_state r \<le> rq_state (snd (parse r d))"
  using parse_loop_forward [of "feed d r" "fst (parse r d)" "snd (parse r d)"]
  by (simp add: parse_feed feed_simps)

section \<open>The invariant of the parser\<close>

text \<open>
  Header names are stored in lower case, in the map's order; the body respects
  \<open>max_body_size_\<close> wherever the code has had the chance to check it, that is everywhere but in
  the middle of a chunk.
\<close>

definition names_ok :: "request \<Rightarrow> bool" where
  "names_ok r \<longleftrightarrow> ordered_map (rq_headers r) \<and>
     (\<forall>e \<in> set (rq_headers r). \<forall>c \<in> set (fst e). \<not> is_upper c)"

definition within_limit :: "request \<Rightarrow> bool" where
  "within_limit r \<longleftrightarrow> rq_max_body_size r = 0 \<or> length (rq_body r) \<le> unat (rq_max_body_size r)"

definition body_ok :: "request \<Rightarrow> bool" where
  "body_ok r \<longleftrightarrow>
     (case rq_state r of
        PARSSING_REQUEST_LINE \<Rightarrow> rq_body r = [] \<and> rq_chunked_state r = CHUNK_SIZE
      | PARSSING_HEADERS \<Rightarrow> rq_body r = [] \<and> rq_chunked_state r = CHUNK_SIZE
      | PARSSING_BODY \<Rightarrow> rq_is_chunked r \<and> rq_chunked_state r = CHUNK_DATA \<or> within_limit r
      | PARSSING_COMPLETE \<Rightarrow> within_limit r
      | PARSSING_ERROR \<Rightarrow> True)"

definition parser_inv :: "request \<Rightarrow> bool" where
  "parser_inv r \<longleftrightarrow> names_ok r \<and> body_ok r"

lemma parse_headers_names: "parse_headers r = (ok, t) \<Longrightarrow> names_ok r \<Longrightarrow> names_ok t"
proof (induction rule: parse_headers_rule)
  case (field r line rest colon ok t)
  let ?key = "str_to_lower (substr line 0 colon)"
  have "\<forall>c \<in> set ?key. \<not> is_upper c" by (auto simp: str_to_lower_def)
  with field(5) have "\<forall>e \<in> set (map_put ?key v (rq_headers r)). \<forall>c \<in> set (fst e). \<not> is_upper c" for v
    by (intro map_put_keys_all) (auto simp: names_ok_def)
  with field(4,5) show ?case by (simp add: names_ok_def std_map.wf_put)
qed (simp_all add: names_ok_def)

lemma chunk_turn_limit:
  assumes "chunk_turn r = (ok, t)" and "rq_chunked_state r = CHUNK_DATA \<or> within_limit r"
    and "\<not> is_error t"
  shows "rq_chunked_state t = CHUNK_DATA \<or> within_limit t"
  using assms
  by (auto simp: chunk_turn_def parse_chunk_size_def parse_chunk_data_def parse_chunk_data_crlf_def
      within_limit_def Let_def is_error_def word_gt_0 split: chunked_state.splits option.splits if_splits)

lemma chunked_body_limit:
  "parse_chunked_body r = (ok, t) \<Longrightarrow> \<not> is_error r \<Longrightarrow>
     rq_chunked_state r = CHUNK_DATA \<or> within_limit r \<Longrightarrow> \<not> is_error t \<Longrightarrow>
     (ok \<longrightarrow> within_limit t) \<and> (rq_chunked_state t = CHUNK_DATA \<or> within_limit t)"
proof (induction rule: parse_chunked_body_rule)
  case (trailers r ok t)
  then show ?case using parse_chunk_trailers_frame [of r ok t] by (auto simp: within_limit_def)
next
  case (stop r t)
  then show ?case using chunk_turn_limit [of r False t] by simp
next
  case (turn r r' ok t)
  moreover from turn have "\<not> is_error r'"
    using chunk_turn_frame [of r True r'] by (simp add: is_error_def)
  ultimately show ?case using chunk_turn_limit [of r True r'] by blast
qed

lemma parse_body_limit:
  assumes run: "parse_body r = (ok, t)" and "rq_state r = PARSSING_BODY" and "body_ok r"
    and "\<not> is_error t"
  shows "(ok \<longrightarrow> within_limit t) \<and> body_ok t"
proof (cases "rq_is_chunked r")
  case True
  have "rq_state t = PARSSING_BODY" "rq_is_chunked t"
    using parse_body_frame [OF run] assms True by (auto simp: is_error_def chunk_frame_def)
  with True assms chunked_body_limit [of r ok t] show ?thesis
    by (auto simp: body_chunked body_ok_def is_error_def)
next
  case False
  with assms have w: "within_limit r" by (simp add: body_ok_def)
  from False show ?thesis
  proof (cases rule: plain_body_cases)
    case large
    with run assms show ?thesis by (auto simp: is_error_def)
  next
    case (enough n)
    with run assms show ?thesis
      by (auto simp: within_limit_def body_ok_def word_le_nat_alt)
  next
    case wait
    with run assms show ?thesis
      by (auto simp: within_limit_def body_ok_def word_le_nat_alt)
  qed (use run assms w in \<open>auto simp: body_ok_def\<close>)
qed

lemma parse_loop_inv: "parse_loop r = (ok, t) \<Longrightarrow> parser_inv r \<Longrightarrow> parser_inv t"
proof (induction rule: parse_loop_rule)
  case (line_stop r t)
  then show ?case using parse_request_line_frame [of r False t]
    by (auto simp: parser_inv_def names_ok_def body_ok_def)
next
  case (line r r' ok t)
  then show ?case using parse_request_line_frame [of r True r']
    by (auto simp: parser_inv_def names_ok_def body_ok_def)
next
  case (headers_stop r t)
  then show ?case using parse_headers_frame [of r False t] parse_headers_names [of r False t]
    by (auto simp: parser_inv_def body_ok_def)
next
  case (headers r r' ok t)
  then have "names_ok r'" "rq_body r' = []" "rq_chunked_state r' = CHUNK_SIZE"
    using parse_headers_frame [of r True r'] parse_headers_names [of r True r']
    by (auto simp: parser_inv_def body_ok_def)
  then have "parser_inv (after_headers r')"
    by (auto simp: after_headers_def parser_inv_def names_ok_def body_ok_def within_limit_def)
  with headers show ?case by simp
next
  case (body_stop r t)
  have "names_ok t" using body_stop parse_body_frame [of r False t]
    by (simp add: parser_inv_def names_ok_def chunk_frame_def)
  moreover have "body_ok t"
    using body_stop parse_body_limit [of r False t]
    by (cases "is_error t") (auto simp: parser_inv_def body_ok_def is_error_def)
  ultimately show ?case by (simp add: parser_inv_def)
next
  case (body r r')
  moreover from body have f: "rq_state r' = PARSSING_BODY" "names_ok r'"
    using parse_body_frame [of r True r']
    by (auto simp: parser_inv_def names_ok_def chunk_frame_def)
  ultimately have "within_limit r'"
    using parse_body_limit [of r True r'] by (simp add: parser_inv_def is_error_def)
  with f show ?case by (simp add: parser_inv_def names_ok_def body_ok_def within_limit_def)
qed simp_all

lemma feed_inv: "parser_inv r \<Longrightarrow> parser_inv (feed d r)"
  by (simp add: parser_inv_def names_ok_def body_ok_def within_limit_def feed_simps
      split: parse_state.splits)

lemma parse_inv: "parser_inv r \<Longrightarrow> parser_inv (snd (parse r d))"
  using parse_loop_inv [of "feed d r" "fst (parse r d)" "snd (parse r d)"]
  by (simp add: parse_feed feed_inv)

lemma parse_all_inv: "parser_inv r \<Longrightarrow> parser_inv (parse_all r ds)"
  unfolding parse_all_def by (induction ds arbitrary: r) (simp_all add: parse_inv)

lemma new_request_inv: "parser_inv (set_max_body_size mx new_request)"
  by (simp add: parser_inv_def names_ok_def body_ok_def set_max_body_size_def new_request_def
      ordered_map_def)

lemma parse_loop_max: "parse_loop r = (ok, t) \<Longrightarrow> rq_max_body_size t = rq_max_body_size r"
proof (induction rule: parse_loop_rule)
  case (line_stop r t)
  then show ?case using parse_request_line_frame [of r False t] by simp
next
  case (line r r' ok t)
  then show ?case using parse_request_line_frame [of r True r'] by simp
next
  case (headers_stop r t)
  then show ?case using parse_headers_frame [of r False t] by simp
next
  case (headers r r' ok t)
  then show ?case using parse_headers_frame [of r True r'] by (simp add: after_headers_def split: if_splits)
next
  case (body_stop r t)
  then show ?case using parse_body_frame [of r False t] by (simp add: chunk_frame_def)
next
  case (body r r')
  then show ?case using parse_body_frame [of r True r'] by (simp add: chunk_frame_def)
qed simp_all

lemma parse_all_max: "rq_max_body_size (parse_all r ds) = rq_max_body_size r"
  unfolding parse_all_def
proof (induction ds arbitrary: r)
  case (Cons d ds)
  have "rq_max_body_size (snd (parse r d)) = rq_max_body_size r"
    using parse_loop_max [of "feed d r" "fst (parse r d)" "snd (parse r d)"]
    by (simp add: parse_feed feed_simps)
  with Cons show ?case by simp
qed simp

section \<open>Properties\<close>

text \<open>
  C23. The body limit: once a request is complete, whatever its framing and however it arrived, its
  body is at most \<open>max_body_size_\<close> bytes long (0 means no limit).
\<close>

theorem complete_body_within_limit:
  assumes "rq_state (parse_all (set_max_body_size mx new_request) ds) = PARSSING_COMPLETE"
    and "mx \<noteq> 0"
  shows "length (rq_body (parse_all (set_max_body_size mx new_request) ds)) \<le> unat mx"
proof -
  let ?t = "parse_all (set_max_body_size mx new_request) ds"
  have "body_ok ?t" using parse_all_inv [OF new_request_inv] by (simp add: parser_inv_def)
  moreover have "rq_max_body_size ?t = mx"
    by (simp add: parse_all_max set_max_body_size_def)
  ultimately show ?thesis using assms by (simp add: body_ok_def within_limit_def)
qed

theorem complete_body_within_limit_witness:
  "length (rq_body (parse_all (set_max_body_size 4 new_request)
     [''POST / H'' @ crlf @ ''Content-Length:3'' @ crlf, crlf @ ''ab'', ''cd''])) \<le> unat (4 :: size_t)"
  by (rule complete_body_within_limit) code_simp+

text \<open>
  Header lookup is case-insensitive: in every state the parser reaches, the stored names are in
  lower case and strictly ordered, and \<open>get_header_value\<close> gives two spellings of a name that
  differ only in case the same answer.
\<close>

theorem header_names_normalised:
  "names_ok (parse_all (set_max_body_size mx new_request) ds) \<and>
   get_header_value (parse_all (set_max_body_size mx new_request) ds) (str_to_lower key) =
   get_header_value (parse_all (set_max_body_size mx new_request) ds) key"
  using parse_all_inv [OF new_request_inv, of mx ds]
  by (simp add: parser_inv_def get_header_value_def str_to_lower_def comp_def)

text \<open>
  C35. An oversized \<open>Content-Length\<close> is refused before a single body byte is stored: when the head
  of the request is complete and announces more than \<open>max_body_size_\<close>, \<open>parse\<close> fails with the
  too-large flag set, and the body bytes stay in the buffer.
\<close>

theorem oversized_content_length_refused:
  assumes "rq_state r = PARSSING_BODY" and "\<not> rq_is_chunked r"
    and "get_header_value r ''Content-Length'' \<noteq> []"
    and "0 < rq_max_body_size r" and "rq_max_body_size r < content_length r"
  shows "parse r d = (False, r\<lparr>rq_buffer := rq_buffer r @ d, rq_body_too_large := True,
                            rq_state := PARSSING_ERROR\<rparr>)"
  using assms
  by (simp add: parse_feed parse_loop_body feed_simps parse_body_def content_length_def Let_def)

theorem oversized_content_length_refused_witness:
  "fst (parse (new_request\<lparr>rq_state := PARSSING_BODY, rq_max_body_size := 2,
      rq_headers := [(''content-length'', ''3'')]\<rparr>) ''abc'') = False"
  by (subst oversized_content_length_refused) (code_simp+)

text \<open>
  Errors are final: once the parser has failed, every further \<open>parse\<close> fails too and changes
  nothing but the unread buffer, so no later byte can turn a rejected request into an accepted one.
\<close>

theorem error_is_final:
  "is_error r \<Longrightarrow> parse r d = (False, r\<lparr>rq_buffer := rq_buffer r @ d\<rparr>)"
  by (simp add: parse_def parse_loop_final is_error_def)

theorem error_is_final_witness:
  "fst (parse (snd (parse new_request (''bad'' @ crlf))) ''GET / H'') = False"
  by (subst error_is_final) (code_simp+)

text \<open>
  C38. The gap in the body limit: inside a chunk the limit is not consulted. While fewer bytes than
  the chunk announces have arrived, \<open>parse\<close> stores them all, reports neither an error nor an
  oversized body, and waits for more, whatever \<open>max_body_size_\<close> is.
\<close>

theorem incomplete_chunk_ignores_limit:
  assumes "rq_state r = PARSSING_BODY" and "rq_is_chunked r" and "rq_chunked_state r = CHUNK_DATA"
    and "length (rq_buffer r) + length d < unat (rq_chunk_remaining r)"
  shows "parse r d = (False, r\<lparr>rq_buffer := [], rq_body := rq_body r @ rq_buffer r @ d,
      rq_chunk_remaining := rq_chunk_remaining r - word_of_nat (length (rq_buffer r) + length d)\<rparr>)"
  using assms
  by (simp add: parse_def parse_loop_body body_chunked parse_chunked_body_turn chunk_turn_def
      parse_chunk_data_def)

theorem incomplete_chunk_ignores_limit_witness:
  "rq_body (snd (parse (new_request\<lparr>rq_state := PARSSING_BODY, rq_is_chunked := True,
      rq_chunked_state := CHUNK_DATA, rq_chunk_remaining := 16, rq_max_body_size := 2\<rparr>) ''abcdef'')) =
   ''abcdef''"
  by (subst incomplete_chunk_ignores_limit) (code_simp+)

end
