(* ===== verification/Sys.thy ===== *)
theory Sys
  imports CxxNum
begin

text \<open>
  The operating system as the request handlers use it, a parameter of the model: a record of the
  calls the sources make on files and directories, over a state \<open>'w\<close> of the outside world. A path
  argument is the C string the call receives, so callers pass \<open>c_str p\<close>. The program's own logic
  never looks inside \<open>'w\<close>; a call that can change the world returns the new one.
\<close>

record 'w sys =
  \<comment> \<open>\<open>stat\<close>: \<open>None\<close> where it fails, else whether the file is a directory (\<open>S_ISDIR\<close>)\<close>
  sys_stat :: "'w \<Rightarrow> string \<Rightarrow> bool option"
  \<comment> \<open>\<open>access(p, F_OK) == 0\<close>, \<open>access(p, R_OK) == 0\<close>, \<open>access(p, W_OK) == 0\<close>\<close>
  sys_exists :: "'w \<Rightarrow> string \<Rightarrow> bool"
  sys_readable :: "'w \<Rightarrow> string \<Rightarrow> bool"
  sys_writable :: "'w \<Rightarrow> string \<Rightarrow> bool"
  \<comment> \<open>an \<open>ifstream\<close>: \<open>None\<close> where it does not open, else what reading to the end gives\<close>
  sys_read_file :: "'w \<Rightarrow> string \<Rightarrow> string option"
  \<comment> \<open>\<open>opendir\<close> and \<open>readdir\<close> until NULL: the names in the order they are returned\<close>
  sys_list_dir :: "'w \<Rightarrow> string \<Rightarrow> string list option"
  \<comment> \<open>an \<open>ofstream\<close> that truncates, one that appends, and \<open>unlink\<close>: \<open>None\<close> where they fail\<close>
  sys_write_file :: "'w \<Rightarrow> string \<Rightarrow> string \<Rightarrow> 'w option"
  sys_append_file :: "'w \<Rightarrow> string \<Rightarrow> string \<Rightarrow> 'w option"
  sys_unlink :: "'w \<Rightarrow> string \<Rightarrow> 'w option"
  \<comment> \<open>the value of the uninitialised \<open>struct stat\<close> bit that \<open>generate_autoindex\<close> reads when
     \<open>stat\<close> failed\<close>
  sys_stale_isdir :: "'w \<Rightarrow> string \<Rightarrow> bool"
  \<comment> \<open>\<open>realpath\<close>: \<open>None\<close> where it fails\<close>
  sys_realpath :: "'w \<Rightarrow> string \<Rightarrow> string option"

end
