(* ===== verification/Response.thy ===== *)
theory Response
  imports Sys CxxMap
begin

text \<open>
  The response builder of \<open>src/src/HTTPResponse.cpp\<close>: the object's members, its setters, the two
  serialisations and the factory functions for each status the server sends. \<open>load_error_page\<close>
  reads a file, so the error factories take the operating system as a parameter.
\<close>

section \<open>Object and setters\<close>

record response =
  rs_status_line :: string
  rs_headers :: "(string, string) std_map"
  rs_body :: string

definition new_response :: response where
  "new_response = \<lparr>rs_status_line = [], rs_headers = [], rs_body = []\<rparr>"

definition set_status :: "int \<Rightarrow> string \<Rightarrow> response \<Rightarrow> response" where
  "set_status status_code reason r =
     r\<lparr>rs_status_line := ''HTTP/1.1 '' @ show_int status_code @ '' '' @ reason\<rparr>"

definition set_header :: "string \<Rightarrow> string \<Rightarrow> response \<Rightarrow> response" where
  "set_header key v r = r\<lparr>rs_headers := map_put key v (rs_headers r)\<rparr>"

definition set_body :: "string \<Rightarrow> response \<Rightarrow> response" where
  "set_body b r = set_header ''Content-Length'' (show_nat (length b)) (r\<lparr>rs_body := b\<rparr>)"

definition clear_body :: "response \<Rightarrow> response" where
  "clear_body r = r\<lparr>rs_body := []\<rparr>"

section \<open>Serialisation\<close>

text \<open>\<open>build_response\<close> (which \<open>to_string\<close> returns) and \<open>header_to_string\<close> are separate loops in the
  source and are kept separate here.\<close>

definition build_response :: "response \<Rightarrow> string" where
  "build_response r =
     rs_status_line r @ crlf @
     concat (map (\<lambda>(k, v). k @ '': '' @ v @ crlf) (rs_headers r)) @ crlf @ rs_body r"

definition to_string :: "response \<Rightarrow> string" where
  "to_string r = build_response r"

definition header_to_string :: "response \<Rightarrow> string" where
  "header_to_string r =
     rs_status_line r @ crlf @
     concat (map (\<lambda>(k, v). k @ '': '' @ v @ crlf) (rs_headers r)) @ crlf"

section \<open>Factories\<close>

definition load_error_page :: "'w sys \<Rightarrow> 'w \<Rightarrow> string \<Rightarrow> string \<Rightarrow> string" where
  "load_error_page os w page_path fallback =
     (if page_path = [] then fallback
      else case sys_read_file os w (c_str page_path) of None \<Rightarrow> fallback | Some content \<Rightarrow> content)"

definition error_400 :: "'w sys \<Rightarrow> 'w \<Rightarrow> string \<Rightarrow> response" where
  "error_400 os w page =
     set_header ''Content-Type'' ''text/html''
       (set_body (load_error_page os w page ''400 Bad Request'')
         (set_status 400 ''Bad Request'' new_response))"

definition error_403 :: "'w sys \<Rightarrow> 'w \<Rightarrow> string \<Rightarrow> response" where
  "error_403 os w page =
     set_header ''Content-Type'' ''text/html''
       (set_body (load_error_page os w page ''403 Forbidden'')
         (set_status 403 ''Forbidden'' new_response))"

definition error_404 :: "'w sys \<Rightarrow> 'w \<Rightarrow> string \<Rightarrow> response" where
  "error_404 os w page =
     set_header ''Content-Type'' ''text/html''
       (set_body (load_error_page os w page ''404 Not Found'')
         (set_status 404 ''Not Found'' new_response))"

definition error_405 :: "'w sys \<Rightarrow> 'w \<Rightarrow> string \<Rightarrow> response" where
  "error_405 os w page =
     set_header ''Content-Type'' ''text/html''
       (set_body (load_error_page os w page ''405 Method Not Allowed'')
         (set_status 405 ''Method Not Allowed'' new_response))"

definition error_413 :: "'w sys \<Rightarrow> 'w \<Rightarrow> string \<Rightarrow> response" where
  "error_413 os w page =
     set_header ''Content-Type'' ''text/html''
       (set_body (load_error_page os w page ''413 Payload Too Large'')
         (set_status 413 ''Payload Too Large'' new_response))"

definition error_500 :: "'w sys \<Rightarrow> 'w \<Rightarrow> string \<Rightarrow> response" where
  "error_500 os w page =
     set_header ''Content-Type'' ''text/html''
       (set_body (load_error_page os w page ''500 Internal Server Error'')
         (set_status 500 ''Internal Server Error'' new_response))"

definition success_200 :: "string \<Rightarrow> string \<Rightarrow> response" where
  "success_200 b content_type =
     set_header ''Content-Type'' content_type (set_body b (set_status 200 ''OK'' new_response))"

definition success_201 :: "string \<Rightarrow> string \<Rightarrow> response" where
  "success_201 b content_type =
     set_header ''Content-Type'' content_type (set_body b (set_status 201 ''Created'' new_response))"

definition success_204 :: response where
  "success_204 = set_status 204 ''No Content'' new_response"

definition redirect_301 :: "string \<Rightarrow> response" where
  "redirect_301 url =
     set_header ''Content-Type'' ''text/html''
       (set_body ''<html><body><h1>301 Moved Permanently</h1></body></html>''
         (set_header ''Location'' url (set_status 301 ''Moved Permanently'' new_response)))"

definition redirect_302 :: "string \<Rightarrow> response" where
  "redirect_302 url =
     set_header ''Content-Type'' ''text/html''
       (set_body ''<html><body><h1>302 Found</h1></body></html>''
         (set_header ''Location'' url (set_status 302 ''Found'' new_response)))"

section \<open>Well-formed responses\<close>

text \<open>
  The header map is ordered, and a \<open>Content-Length\<close> that is present tells the length of the body.
  \<open>framed\<close> adds that it is present, which every response with a body needs on a connection.
\<close>

definition response_ok :: "response \<Rightarrow> bool" where
  "response_ok r \<longleftrightarrow> ordered_map (rs_headers r)"

definition framed :: "response \<Rightarrow> bool" where
  "framed r \<longleftrightarrow> response_ok r \<and>
     map_of (rs_headers r) ''Content-Length'' = Some (show_nat (length (rs_body r)))"

named_theorems response_simps "selectors over the response setters"

lemma response_select [response_simps]:
  "rs_status_line (set_header k v r) = rs_status_line r"
  "rs_body (set_header k v r) = rs_body r"
  "rs_headers (set_header k v r) = map_put k v (rs_headers r)"
  "rs_status_line (set_body b r) = rs_status_line r"
  "rs_body (set_body b r) = b"
  "rs_headers (set_body b r) = map_put ''Content-Length'' (show_nat (length b)) (rs_headers r)"
  "rs_status_line (set_status c m r) = ''HTTP/1.1 '' @ show_int c @ '' '' @ m"
  "rs_body (set_status c m r) = rs_body r"
  "rs_headers (set_status c m r) = rs_headers r"
  "rs_status_line (clear_body r) = rs_status_line r"
  "rs_body (clear_body r) = []"
  "rs_headers (clear_body r) = rs_headers r"
  "rs_status_line new_response = []" "rs_body new_response = []" "rs_headers new_response = []"
  by (simp_all add: set_header_def set_body_def set_status_def clear_body_def new_response_def)

lemma response_ok_steps [response_simps, intro]:
  "response_ok new_response"
  "response_ok r \<Longrightarrow> response_ok (set_status c m r)"
  "response_ok r \<Longrightarrow> response_ok (set_header k v r)"
  "response_ok r \<Longrightarrow> response_ok (set_body b r)"
  "response_ok r \<Longrightarrow> response_ok (clear_body r)"
  by (simp_all add: response_ok_def response_simps std_map.wf_put std_map.wf_empty)

lemma framed_set_body: "response_ok r \<Longrightarrow> framed (set_body b r)"
  by (simp add: framed_def response_simps map_of_map_put)

lemma framed_set_header: "framed r \<Longrightarrow> k \<noteq> ''Content-Length'' \<Longrightarrow> framed (set_header k v r)"
  by (simp add: framed_def response_simps map_of_map_put)

lemmas factory_defs =
  error_400_def error_403_def error_404_def error_405_def error_413_def error_500_def
  success_200_def success_201_def redirect_301_def redirect_302_def

lemma factories_framed:
  "framed (error_400 os w p)" "framed (error_403 os w p)" "framed (error_404 os w p)"
  "framed (error_405 os w p)" "framed (error_413 os w p)" "framed (error_500 os w p)"
  "framed (success_200 b ct)" "framed (success_201 b ct)" "framed (redirect_301 u)"
  "framed (redirect_302 u)"
  by (simp_all add: factory_defs framed_set_header framed_set_body response_ok_steps)

lemma to_string_split: "to_string r = header_to_string r @ rs_body r"
  by (simp add: to_string_def build_response_def header_to_string_def)

section \<open>Framing on the wire\<close>

text \<open>
  No CR in a status line, header name or value: the first blank line of the serialised response is
  then the end of its head.
\<close>

definition cr_free :: "response \<Rightarrow> bool" where
  "cr_free r \<longleftrightarrow> CR \<notin> set (rs_status_line r) \<and>
     list_all (\<lambda>(k, v). k \<noteq> [] \<and> CR \<notin> set k \<and> CR \<notin> set v) (rs_headers r)"

definition header_lines :: "(string, string) std_map \<Rightarrow> string" where
  "header_lines h = concat (map (\<lambda>(k, v). k @ '': '' @ v @ crlf) h)"

lemma find_sub_skip:
  assumes "\<not> prefix pat (x # xs)"
  shows "find_sub pat (x # xs) = map_option Suc (find_sub pat xs)"
  using assms by simp

lemma find_sub_skips:
  assumes "c \<notin> set a"
  shows "find_sub (c # pat) (a @ b) = map_option (\<lambda>i. i + length a) (find_sub (c # pat) b)"
  using assms by (induction a) (auto simp: option.map_comp comp_def option.map_ident)

lemma find_blank_line:
  assumes "list_all (\<lambda>(k, v). k \<noteq> [] \<and> CR \<notin> set k \<and> CR \<notin> set v) h"
  shows "find_sub crlf2 (crlf @ header_lines h @ crlf @ b) = Some (length (header_lines h))"
  using assms
proof (induction h)
  case Nil
  show ?case by (simp add: header_lines_def)
next
  case (Cons kv h)
  obtain k v where kv: "kv = (k, v)" by (cases kv)
  with Cons.prems have k: "k \<noteq> []" "CR \<notin> set (LF # k @ '': '' @ v)"
    and h: "list_all (\<lambda>(k, v). k \<noteq> [] \<and> CR \<notin> set k \<and> CR \<notin> set v) h" by auto
  let ?w = "LF # k @ '': '' @ v" and ?more = "header_lines h @ crlf @ b"
  have "crlf @ header_lines (kv # h) @ crlf @ b = CR # ?w @ crlf @ ?more"
    by (simp add: header_lines_def kv)
  moreover have "find_sub crlf2 (CR # ?w @ crlf @ ?more) = map_option Suc (find_sub crlf2 (?w @ crlf @ ?more))"
  proof (rule find_sub_skip)
    show "\<not> prefix crlf2 (CR # ?w @ crlf @ ?more)"
      using k by (cases k) auto
  qed
  moreover have "find_sub crlf2 (?w @ crlf @ ?more) =
      map_option (\<lambda>i. i + length ?w) (find_sub crlf2 (crlf @ ?more))"
    using k(2) by (rule find_sub_skips)
  ultimately have "find_sub crlf2 (crlf @ header_lines (kv # h) @ crlf @ b) =
      Some (Suc (length (header_lines h) + length ?w))"
    using Cons.IH [OF h] by (simp only: option.map)
  then show ?case by (simp add: header_lines_def kv)
qed

text \<open>
  The head of a response ends where a client looks for its end: if no part of the head contains
  a CR, the first blank line (\<open>CR LF CR LF\<close>) of the serialised response is the one the server put
  between the header fields and the body, whatever bytes the body holds. Everything behind it is
  the body.
\<close>

theorem response_head_ends_at_blank_line:
  assumes "cr_free r"
  shows "find_sub crlf2 (to_string r) = Some (length (header_to_string r) - 4)
    \<and> drop (length (header_to_string r) - 4 + 4) (to_string r) = rs_body r"
proof -
  have h: "header_to_string r = rs_status_line r @ crlf @ header_lines (rs_headers r) @ crlf"
    by (simp add: header_to_string_def header_lines_def)
  have t: "to_string r = rs_status_line r @ (crlf @ header_lines (rs_headers r) @ crlf @ rs_body r)"
    by (simp add: to_string_split h)
  have "find_sub crlf2 (to_string r) = Some (length (rs_status_line r) + length (header_lines (rs_headers r)))"
    unfolding t using assms
    by (subst find_sub_skips) (simp_all add: cr_free_def find_blank_line del: append_Cons)
  moreover have "length (header_to_string r) - 4 + 4 = length (header_to_string r)" by (simp add: h)
  moreover have "length (header_to_string r) - 4 =
      length (rs_status_line r) + length (header_lines (rs_headers r))" by (simp add: h)
  ultimately show ?thesis by (simp only: to_string_split) simp
qed

theorem response_head_ends_at_blank_line_witness:
  "find_sub crlf2 (to_string (redirect_301 ''/a/'')) =
     Some (length (header_to_string (redirect_301 ''/a/'')) - 4)
   \<and> drop (length (header_to_string (redirect_301 ''/a/'')) - 4 + 4) (to_string (redirect_301 ''/a/''))
     = rs_body (redirect_301 ''/a/'')"
  by (rule response_head_ends_at_blank_line) code_simp

end
