(* ===== verification/Paths.thy ===== *)
theory Paths
  imports CxxNum
begin

text \<open>
  The URI utilities of \<open>src/src/HTTPHandler.cpp\<close>: query and route-prefix stripping, path
  sanitising, MIME types and URL decoding, with an independent specification of what a path means
  (its components, and the walk they describe from a directory) against which sanitising is proved.
\<close>

section \<open>Code\<close>

definition strip_query_string :: "string \<Rightarrow> string" where
  "strip_query_string uri =
     (case find_char CHR ''?'' uri of Some pos \<Rightarrow> substr uri 0 pos | None \<Rightarrow> uri)"

definition strip_route_prefix :: "string \<Rightarrow> string \<Rightarrow> string" where
  "strip_route_prefix uri route_path =
     (if route_path = ''/'' \<or> route_path = [] then uri
      else if starts_with uri route_path then
        let stripped = drop (length route_path) uri in
        if stripped = [] \<or> hd stripped \<noteq> CHR ''/'' then ''/'' @ stripped else stripped
      else uri)"

definition process_path_segment :: "string list \<Rightarrow> string \<Rightarrow> string list" where
  "process_path_segment segments segment =
     (if segment = ''..'' then (if segments \<noteq> [] then butlast segments else segments)
      else if segment \<noteq> ''.'' then segments @ [segment]
      else segments)"

fun sanitize_scan :: "string list \<Rightarrow> string \<Rightarrow> string \<Rightarrow> string list" where
  "sanitize_scan segments segment [] =
     (if segment \<noteq> [] then process_path_segment segments segment else segments)"
| "sanitize_scan segments segment (c # path) =
     (if c = CHR ''/'' then
        (if segment \<noteq> [] then sanitize_scan (process_path_segment segments segment) [] path
         else sanitize_scan segments segment path)
      else sanitize_scan segments (segment @ [c]) path)"

fun join_segments :: "string list \<Rightarrow> string" where
  "join_segments [] = []"
| "join_segments [s] = s"
| "join_segments (s # t) = s @ ''/'' @ join_segments t"

definition sanitize_path :: "string \<Rightarrow> string" where
  "sanitize_path path = ''/'' @ join_segments (sanitize_scan [] [] path)"

definition get_mime_type :: "string \<Rightarrow> string" where
  "get_mime_type path =
     (case find_last_of CHR ''.'' path of
        None \<Rightarrow> ''application/octet-stream''
      | Some dot_pos \<Rightarrow>
          let ext = drop (dot_pos + 1) path in
          if ext = ''html'' \<or> ext = ''htm'' then ''text/html''
          else if ext = ''css'' then ''text/css''
          else if ext = ''js'' then ''application/javascript''
          else if ext = ''json'' then ''application/json''
          else if ext = ''xml'' then ''application/xml''
          else if ext = ''txt'' then ''text/plain''
          else if ext = ''jpg'' \<or> ext = ''jpeg'' then ''image/jpeg''
          else if ext = ''png'' then ''image/png''
          else if ext = ''gif'' then ''image/gif''
          else if ext = ''svg'' then ''image/svg+xml''
          else if ext = ''ico'' then ''image/x-icon''
          else if ext = ''pdf'' then ''application/pdf''
          else if ext = ''zip'' then ''application/zip''
          else if ext = ''mp4'' then ''video/mp4''
          else if ext = ''mp3'' then ''audio/mpeg''
          else ''application/octet-stream'')"

fun url_decode :: "string \<Rightarrow> string" where
  "url_decode [] = []"
| "url_decode (c # cs) =
     (if c = CHR ''%'' \<and> 2 \<le> length cs then
        (case extract_hex (take 2 cs) of
           Some v \<Rightarrow> char_of v # url_decode (drop 2 cs)
         | None \<Rightarrow> c # url_decode cs)
      else if c = CHR ''+'' then SP # url_decode cs
      else c # url_decode cs)"

section \<open>Specification of paths\<close>

text \<open>The components of a path: the non-empty pieces between slashes.\<close>

fun components :: "string \<Rightarrow> string list" where
  "components [] = []"
| "components (c # p) =
     (if c = CHR ''/'' then components p
      else (case p of
              [] \<Rightarrow> [[c]]
            | d # _ \<Rightarrow> if d = CHR ''/'' then [c] # components p
                      else (case components p of [] \<Rightarrow> [[c]] | s # ss \<Rightarrow> (c # s) # ss)))"

text \<open>The lexical walk of a list of components from a directory, given by its names.\<close>

fun walk :: "string list \<Rightarrow> string list \<Rightarrow> string list" where
  "walk dir [] = dir"
| "walk dir (s # ss) =
     walk (if s = ''..'' then butlast dir else if s = ''.'' then dir else dir @ [s]) ss"

definition proper_segment :: "string \<Rightarrow> bool" where
  "proper_segment s \<longleftrightarrow> s \<noteq> [] \<and> CHR ''/'' \<notin> set s \<and> s \<noteq> ''.'' \<and> s \<noteq> ''..''"

lemma components_segment:
  assumes "s \<noteq> []" and "CHR ''/'' \<notin> set s"
  shows "components (s @ CHR ''/'' # p) = s # components p" and "components s = [s]"
proof -
  show "components (s @ CHR ''/'' # p) = s # components p"
    using assms
  proof (induction s)
    case (Cons c s)
    then show ?case by (cases s) auto
  qed simp
  show "components s = [s]"
    using assms
  proof (induction s)
    case (Cons c s)
    then show ?case by (cases s) auto
  qed simp
qed

lemma components_join:
  "list_all (\<lambda>s. s \<noteq> [] \<and> CHR ''/'' \<notin> set s) segs \<Longrightarrow> components (join_segments segs) = segs"
  by (induction segs rule: join_segments.induct) (auto simp: components_segment)

text \<open>The scan is a left fold of the segment step over the components.\<close>

lemma sanitize_scan_fold:
  assumes "CHR ''/'' \<notin> set seg"
  shows "sanitize_scan segs seg p = foldl process_path_segment segs (components (seg @ p))"
  using assms
proof (induction p arbitrary: segs seg)
  case Nil
  then show ?case by (cases "seg = []") (simp_all add: components_segment)
next
  case (Cons c p)
  show ?case
  proof (cases "c = CHR ''/''")
    case True
    with Cons show ?thesis by (cases "seg = []") (simp_all add: components_segment)
  next
    case False
    with Cons.prems have "CHR ''/'' \<notin> set (seg @ [c])" by simp
    from Cons.IH [OF this] False show ?thesis by simp
  qed
qed

lemma sanitize_scan_components:
  "sanitize_scan [] [] p = foldl process_path_segment [] (components p)"
  by (simp add: sanitize_scan_fold)

lemma process_walk: "process_path_segment segs s = walk segs [s]"
  by (simp add: process_path_segment_def)

lemma walk_snoc: "walk dir (ss @ [s]) = walk (walk dir ss) [s]"
  by (induction ss arbitrary: dir) simp_all

lemma foldl_walk: "foldl process_path_segment segs ss = walk segs ss"
  by (induction ss rule: rev_induct) (simp_all add: process_walk walk_snoc)

definition segment :: "string \<Rightarrow> bool" where
  "segment s \<longleftrightarrow> s \<noteq> [] \<and> CHR ''/'' \<notin> set s"

lemma components_parts: "list_all segment (components p)"
proof (induction p rule: components.induct)
  case (2 c p)
  show ?case
  proof (cases "c = CHR ''/''")
    case True
    with 2 show ?thesis by simp
  next
    case False
    show ?thesis
    proof (cases p)
      case Nil
      with False show ?thesis by (simp add: segment_def)
    next
      case (Cons d q)
      show ?thesis
      proof (cases "d = CHR ''/''")
        case True
        with 2(3) [OF False Cons] Cons False 2 show ?thesis by (simp add: segment_def)
      next
        case d: False
        have all: "list_all segment (components p)" using 2 False Cons d by simp
        have "components (c # p) =
            (case components p of [] \<Rightarrow> [[c]] | s # ss \<Rightarrow> (c # s) # ss)"
          using False Cons d by simp
        moreover have "segment [c]" "segment a \<Longrightarrow> segment (c # a)" for a
          using False by (simp_all add: segment_def)
        ultimately show ?thesis
          using all by (cases "components p") simp_all
      qed
    qed
  qed
qed simp

lemma proper_segment_iff: "proper_segment s \<longleftrightarrow> segment s \<and> s \<noteq> ''.'' \<and> s \<noteq> ''..''"
  by (auto simp: proper_segment_def segment_def)

lemma walk_proper:
  "list_all proper_segment segs \<Longrightarrow> list_all segment ss \<Longrightarrow>
     list_all proper_segment (walk segs ss)"
proof (induction ss arbitrary: segs)
  case (Cons s ss)
  have b: "list_all proper_segment (butlast segs)"
    using Cons.prems(1) by (auto simp: list_all_iff dest: in_set_butlastD)
  show ?case
    unfolding walk.simps
  proof (rule Cons.IH)
    show "list_all proper_segment
        (if s = ''..'' then butlast segs else if s = ''.'' then segs else segs @ [s])"
      using b Cons.prems by (simp add: proper_segment_iff [of s])
  qed (use Cons.prems in simp)
qed simp

lemma sanitize_scan_proper: "list_all proper_segment (sanitize_scan [] [] p)"
  unfolding sanitize_scan_components foldl_walk
  by (rule walk_proper) (simp_all add: components_parts)

lemma components_sanitize: "components (sanitize_path p) = walk [] (components p)"
proof -
  have "list_all (\<lambda>s. s \<noteq> [] \<and> CHR ''/'' \<notin> set s) (sanitize_scan [] [] p)"
    using sanitize_scan_proper [of p] by (auto simp: list_all_iff proper_segment_def)
  then show ?thesis
    by (simp add: sanitize_path_def components_join) (simp add: sanitize_scan_components foldl_walk)
qed

lemma components_sanitize_proper: "list_all proper_segment (components (sanitize_path p))"
  using sanitize_scan_proper [of p]
  by (simp add: components_sanitize sanitize_scan_components foldl_walk)

lemma walk_proper_append: "list_all proper_segment ss \<Longrightarrow> walk dir ss = dir @ ss"
  by (induction ss arbitrary: dir) (auto simp: proper_segment_def)

section \<open>Properties\<close>

text \<open>
  C19. \<open>sanitize_path\<close> computes the place a path names: the components of its result are those of
  the lexical walk of the path's components from the root directory, where dot-dot at the root
  stays at the root; the result starts with a slash and has no empty, dot or dot-dot component.
\<close>

theorem sanitize_path_refines_walk:
  "components (sanitize_path p) = walk [] (components p) \<and> hd (sanitize_path p) = CHR ''/'' \<and>
   filter (\<lambda>s. s = [] \<or> s = ''.'' \<or> s = ''..'') (components (sanitize_path p)) = []"
proof -
  have "filter (\<lambda>s. s = [] \<or> s = ''.'' \<or> s = ''..'') (components (sanitize_path p)) = []"
    using components_sanitize_proper [of p]
    by (simp add: filter_empty_conv list_all_iff proper_segment_def del: components.simps)
  moreover have "hd (sanitize_path p) = CHR ''/''" by (simp add: sanitize_path_def)
  ultimately show ?thesis using components_sanitize by blast
qed

text \<open>
  C36. Confinement: a walk along a sanitised path never leaves the directory it starts from. After
  any number of its components the walk is at or below the starting directory, whatever the
  request target was.
\<close>

theorem sanitize_path_confined:
  "prefix dir (walk dir (take k (components (sanitize_path p))))"
proof -
  have "list_all proper_segment (take k (components (sanitize_path p)))"
    using components_sanitize_proper [of p] by (auto simp: list_all_iff dest: in_set_takeD)
  then show ?thesis by (simp add: walk_proper_append)
qed

text \<open>
  Sanitising twice changes nothing: \<open>sanitize_path\<close> is idempotent.
\<close>

theorem sanitize_path_idempotent: "sanitize_path (sanitize_path p) = sanitize_path p"
proof -
  have "walk [] (components (sanitize_path p)) = walk [] (components p)"
    using walk_proper_append [OF components_sanitize_proper, of "[]" p]
    by (simp add: components_sanitize)
  then show ?thesis
    by (simp add: sanitize_path_def [of "sanitize_path p"] sanitize_scan_components foldl_walk)
       (simp add: sanitize_path_def sanitize_scan_components foldl_walk)
qed

section \<open>URL encoding\<close>

text \<open>A reference encoder for form data: unreserved bytes as they are, a space as a plus sign,
  every other byte as a percent escape with two hexadecimal digits.\<close>

definition unreserved :: "char \<Rightarrow> bool" where
  "unreserved c \<longleftrightarrow> c \<noteq> CHR ''%'' \<and> c \<noteq> CHR ''+'' \<and> c \<noteq> SP \<and> 32 < code c \<and> code c < 127"

definition url_encode :: "string \<Rightarrow> string" where
  "url_encode s =
     concat (map (\<lambda>c. if unreserved c then [c] else if c = SP then ''+''
                      else [CHR ''%'', hex_char (code c div 16), hex_char (code c mod 16)]) s)"

lemma hex_char_plain:
  assumes "d < 16"
  shows "\<not> is_space (hex_char d)" "hex_char d \<noteq> CHR ''-''" "hex_char d \<noteq> CHR ''+''" "is_hex (hex_char d)"
    "hex_char d \<noteq> CHR ''x''" "hex_char d \<noteq> CHR ''X''"
proof -
  have h: "is_hex (hex_char d)" using hex_digit_char [OF assms] by (simp add: is_hex_def)
  then show "is_hex (hex_char d)" "\<not> is_space (hex_char d)" by (simp_all add: is_hex_not)
  show "hex_char d \<noteq> CHR ''-''" "hex_char d \<noteq> CHR ''+''" "hex_char d \<noteq> CHR ''x''" "hex_char d \<noteq> CHR ''X''"
    using h by (auto simp: is_hex_def hex_digit_def Let_def code_def)
qed

lemma extract_hex_pair:
  assumes "d < 16" and "e < 16"
  shows "extract_hex [hex_char d, hex_char e] = Some (int (d * 16 + e))"
proof -
  have "hex_val [hex_char d, hex_char e] = d * 16 + e"
    using assms by (simp add: hex_val_def hex_digit_char)
  then show ?thesis
    using assms hex_char_plain [OF assms(1)] hex_char_plain [OF assms(2)]
    by (simp add: extract_hex_def sign_split_def)
qed

text \<open>
  URL decoding inverts URL encoding: for every byte string, decoding the form encoding of the
  string gives the string back.
\<close>

theorem url_decode_encode: "url_decode (url_encode s) = s"
proof (induction s)
  case Nil
  show ?case by (simp add: url_encode_def)
next
  case (Cons c s)
  have e: "url_encode (c # s) = (if unreserved c then [c] else if c = SP then ''+''
      else [CHR ''%'', hex_char (code c div 16), hex_char (code c mod 16)]) @ url_encode s"
    by (simp add: url_encode_def)
  have "code c < 256" by (rule code_bound)
  then have "extract_hex [hex_char (code c div 16), hex_char (code c mod 16)] =
      Some (int (code c div 16 * 16 + code c mod 16))"
    by (intro extract_hex_pair) auto
  then have x: "extract_hex [hex_char (code c div 16), hex_char (code c mod 16)] = Some (int (code c))"
    by (simp add: div_mult_mod_eq)
  have c: "char_of (int (code c)) = c"
    by (simp add: code_def)
  show ?case
    using Cons.IH x c unfolding e by (auto simp: unreserved_def)
qed

text \<open>
  Malformed escapes lose bytes: where only the first of the two characters behind a percent sign
  is a hexadecimal digit, \<open>url_decode\<close> decodes that digit alone and drops the second character, so
  a byte of the client's data that belongs to no escape disappears.
\<close>

theorem url_decode_drops_byte:
  assumes "d < 16" and "\<not> is_hex x" and "x \<noteq> CHR ''x''" and "x \<noteq> CHR ''X''"
  shows "url_decode (CHR ''%'' # hex_char d # x # s) = char_of (int d) # url_decode s"
proof -
  have "extract_hex [hex_char d, x] = Some (int d)"
    using assms hex_char_plain [OF assms(1)]
    by (simp add: extract_hex_def sign_split_def hex_val_def hex_digit_char)
  then show ?thesis by simp
qed

theorem url_decode_drops_byte_witness:
  "url_decode (CHR ''%'' # hex_char 4 # CHR ''g'' # ''o'') = char_of (int 4) # url_decode ''o''"
  by (rule url_decode_drops_byte) code_simp+

end
