(* ===== verification/Config.thy ===== *)
theory Config
  imports Sys CxxMap
begin

text \<open>
  The configuration of \<open>src/src/Config.cpp\<close> and \<open>src/inc/Config.hpp\<close>: the two configuration
  structures, the line reader and tokeniser, one function per directive, the two block parsers and
  the validation. A parsing function that returns \<open>false\<close> after setting \<open>error_\<close> returns the
  message; reading \<open>words[0]\<close> of an empty vector is undefined behaviour and is a result of its own.
\<close>

section \<open>Configuration structures\<close>

record route_config =
  rc_path :: string
  rc_allowed_methods :: "string list"
  rc_root :: string
  rc_index :: string
  rc_autoindex :: bool
  rc_upload_store :: string
  rc_redirect_url :: string
  rc_redirect_code :: int
  rc_cgi_extension :: string
  rc_cgi_path :: string
  rc_client_max_body_size :: size_t
  rc_has_client_max_body_size :: bool

definition new_route :: route_config where
  "new_route =
     \<lparr>rc_path = ''/'', rc_allowed_methods = [], rc_root = [], rc_index = ''index.html'',
      rc_autoindex = False, rc_upload_store = [], rc_redirect_url = [], rc_redirect_code = 0,
      rc_cgi_extension = [], rc_cgi_path = [], rc_client_max_body_size = 0,
      rc_has_client_max_body_size = False\<rparr>"

record server_config =
  sc_host :: string
  sc_port :: int
  sc_has_listen :: bool
  sc_server_names :: "string list"
  sc_error_pages :: "(int, string) std_map"
  sc_client_max_body_size :: size_t
  sc_routes :: "route_config list"

definition new_server :: server_config where
  "new_server =
     \<lparr>sc_host = ''0.0.0.0'', sc_port = 8080, sc_has_listen = False, sc_server_names = [],
      sc_error_pages = [], sc_client_max_body_size = 1048576, sc_routes = []\<rparr>"

datatype cfg_error = Config_Error string | Undefined_Behaviour

type_synonym 'a cfg = "cfg_error + 'a"

definition fail :: "string \<Rightarrow> 'a cfg" where
  "fail msg = Inl (Config_Error msg)"

definition bind_cfg :: "'a cfg \<Rightarrow> ('a \<Rightarrow> 'b cfg) \<Rightarrow> 'b cfg" where
  "bind_cfg m f = (case m of Inl e \<Rightarrow> Inl e | Inr x \<Rightarrow> f x)"

abbreviation quoted :: "string \<Rightarrow> string" where
  "quoted s \<equiv> [CHR 0x27] @ s @ [CHR 0x27]"

section \<open>Lines and words\<close>

definition line_blanks :: "char set" where
  "line_blanks = {SP, TAB, CR, LF}"

definition clean_line :: "string \<Rightarrow> string" where
  "clean_line line =
     trim_of line_blanks
       (case find_char CHR ''#'' line of Some hash \<Rightarrow> substr line 0 hash | None \<Rightarrow> line)"

definition tokenize :: "string \<Rightarrow> string list" where
  "tokenize line =
     stream_words (if line \<noteq> [] \<and> last line = CHR '';'' then take (length line - 1) line else line)"

text \<open>\<open>std::getline\<close> on the unread rest of the file.\<close>

definition getline :: "string \<Rightarrow> (string \<times> string) option" where
  "getline s =
     (if s = [] then None
      else let line = takeWhile (\<lambda>c. c \<noteq> LF) s in Some (line, drop (length line + 1) s))"

lemma getline_less: "getline s = Some (line, rest) \<Longrightarrow> length rest < length s"
  by (auto simp: getline_def Let_def split: if_splits)

function read_next_line :: "string \<Rightarrow> (string \<times> string) option" where
  "read_next_line s =
     (case getline s of
        None \<Rightarrow> None
      | Some (line, rest) \<Rightarrow>
          let cl = clean_line line in
          if cl \<noteq> [] then Some (cl, rest) else read_next_line rest)"
  by pat_completeness auto
termination
  by (relation "measure length") (auto dest: getline_less)

declare read_next_line.simps [simp del]

lemma read_next_line_less: "read_next_line s = Some (line, rest) \<Longrightarrow> length rest < length s"
proof (induction s rule: read_next_line.induct)
  case (1 s)
  show ?case
  proof (cases "getline s")
    case None
    with "1.prems" show ?thesis by (simp add: read_next_line.simps [of s])
  next
    case (Some lr)
    then obtain l r where g: "getline s = Some (l, r)" by (cases lr) simp
    show ?thesis
    proof (cases "clean_line l = []")
      case True
      with g "1.prems" "1.IH" [OF g refl refl] getline_less [OF g] show ?thesis
        by (simp add: read_next_line.simps [of s])
    next
      case False
      with g "1.prems" getline_less [OF g] show ?thesis
        by (simp add: read_next_line.simps [of s])
    qed
  qed
qed

definition expect_args :: "string list \<Rightarrow> nat \<Rightarrow> string \<Rightarrow> 'a cfg \<Rightarrow> 'a cfg" where
  "expect_args words n directive k =
     (if n \<le> length words then k else fail (directive @ '' requires a value''))"

definition expect_open_brace :: "string \<Rightarrow> string \<Rightarrow> string cfg" where
  "expect_open_brace s ctxt =
     (case read_next_line s of
        None \<Rightarrow> fail (''expected '' @ quoted ''{'' @ '' after '' @ quoted ctxt)
      | Some (line, rest) \<Rightarrow>
          if line \<noteq> ''{''
          then fail (''expected '' @ quoted ''{'' @ '' after '' @ quoted ctxt @ '', got '' @ quoted line)
          else Inr rest)"

section \<open>Values\<close>

definition parse_listen :: "string \<Rightarrow> server_config \<Rightarrow> server_config cfg" where
  "parse_listen v srv =
     (case find_char CHR '':'' v of
        Some colon \<Rightarrow>
          let srv = srv\<lparr>sc_host := substr v 0 colon\<rparr>;
              port_str = drop (colon + 1) v
          in (case extract_int port_str of
                None \<Rightarrow> fail (''invalid port: '' @ quoted port_str)
              | Some port \<Rightarrow> Inr (srv\<lparr>sc_port := port\<rparr>))
      | None \<Rightarrow>
          (case extract_int v of
             None \<Rightarrow> fail (''invalid port: '' @ quoted v)
           | Some port \<Rightarrow> Inr (srv\<lparr>sc_port := port\<rparr>)))"

definition parse_size :: "string \<Rightarrow> size_t cfg" where
  "parse_size v =
     (if v = [] then fail ''empty body size value''
      else let suffix_char = last v;
               (multiplier, number_str) =
                 (if suffix_char = CHR ''K'' \<or> suffix_char = CHR ''k''
                  then (1024, take (length v - 1) v)
                  else if suffix_char = CHR ''M'' \<or> suffix_char = CHR ''m''
                  then (1024 * 1024, take (length v - 1) v)
                  else (1, v))
           in (case extract_size number_str of
                 None \<Rightarrow> fail (''invalid body size: '' @ quoted v)
               | Some n \<Rightarrow> Inr (n * multiplier)))"

section \<open>Route directives\<close>

definition parse_autoindex :: "route_config \<Rightarrow> string list \<Rightarrow> route_config cfg" where
  "parse_autoindex route words =
     expect_args words 2 ''autoindex''
       (if words ! 1 = ''on'' then Inr (route\<lparr>rc_autoindex := True\<rparr>)
        else if words ! 1 = ''off'' then Inr (route\<lparr>rc_autoindex := False\<rparr>)
        else fail (''autoindex must be '' @ quoted ''on'' @ '' or '' @ quoted ''off'' @ '', got ''
                   @ quoted (words ! 1)))"

definition parse_allow_methods :: "route_config \<Rightarrow> string list \<Rightarrow> route_config cfg" where
  "parse_allow_methods route words =
     expect_args words 2 ''allow_methods'' (Inr (route\<lparr>rc_allowed_methods := drop 1 words\<rparr>))"

definition parse_return :: "route_config \<Rightarrow> string list \<Rightarrow> route_config cfg" where
  "parse_return route words =
     (if length words < 3 then fail ''return requires a code and a URL''
      else case extract_int (words ! 1) of
             None \<Rightarrow> fail (''invalid redirect code: '' @ quoted (words ! 1))
           | Some c \<Rightarrow> Inr (route\<lparr>rc_redirect_code := c, rc_redirect_url := words ! 2\<rparr>))"

definition parse_route_string_directive :: "string list \<Rightarrow> string \<Rightarrow> string cfg" where
  "parse_route_string_directive words directive = expect_args words 2 directive (Inr (words ! 1))"

definition parse_route_directive :: "route_config \<Rightarrow> string list \<Rightarrow> route_config cfg" where
  "parse_route_directive route words =
     (case words of [] \<Rightarrow> Inl Undefined_Behaviour | key # _ \<Rightarrow>
      if key = ''root'' then
        bind_cfg (parse_route_string_directive words ''root'') (\<lambda>v. Inr (route\<lparr>rc_root := v\<rparr>))
      else if key = ''index'' then
        bind_cfg (parse_route_string_directive words ''index'') (\<lambda>v. Inr (route\<lparr>rc_index := v\<rparr>))
      else if key = ''autoindex'' then parse_autoindex route words
      else if key = ''allow_methods'' then parse_allow_methods route words
      else if key = ''return'' then parse_return route words
      else if key = ''upload_store'' then
        bind_cfg (parse_route_string_directive words ''upload_store'')
          (\<lambda>v. Inr (route\<lparr>rc_upload_store := v\<rparr>))
      else if key = ''cgi_extension'' then
        bind_cfg (parse_route_string_directive words ''cgi_extension'')
          (\<lambda>v. Inr (route\<lparr>rc_cgi_extension := v\<rparr>))
      else if key = ''cgi_path'' then
        bind_cfg (parse_route_string_directive words ''cgi_path'')
          (\<lambda>v. Inr (route\<lparr>rc_cgi_path := v\<rparr>))
      else if key = ''client_max_body_size'' then
        expect_args words 2 ''client_max_body_size''
          (bind_cfg (parse_size (words ! 1))
             (\<lambda>n. Inr (route\<lparr>rc_client_max_body_size := n, rc_has_client_max_body_size := True\<rparr>)))
      else fail (''unknown directive in location block: '' @ quoted key))"

section \<open>Server directives\<close>

definition parse_directive :: "server_config \<Rightarrow> string list \<Rightarrow> server_config cfg" where
  "parse_directive srv words =
     (case words of [] \<Rightarrow> Inl Undefined_Behaviour | key # _ \<Rightarrow>
      if key = ''listen'' then
        expect_args words 2 ''listen''
          (if sc_has_listen srv then fail ''duplicate listen directive''
           else parse_listen (words ! 1) (srv\<lparr>sc_has_listen := True\<rparr>))
      else if key = ''server_name'' then
        expect_args words 2 ''server_name''
          (Inr (srv\<lparr>sc_server_names := sc_server_names srv @ drop 1 words\<rparr>))
      else if key = ''error_page'' then
        (if length words < 3 then fail ''error_page requires a code and a path''
         else case extract_int (words ! 1) of
                None \<Rightarrow> fail (''invalid error code: '' @ quoted (words ! 1))
              | Some c \<Rightarrow> Inr (srv\<lparr>sc_error_pages := map_put c (words ! 2) (sc_error_pages srv)\<rparr>))
      else if key = ''client_max_body_size'' then
        expect_args words 2 ''client_max_body_size''
          (bind_cfg (parse_size (words ! 1)) (\<lambda>n. Inr (srv\<lparr>sc_client_max_body_size := n\<rparr>)))
      else fail (''unknown directive: '' @ quoted key))"

section \<open>Blocks\<close>

function location_lines :: "string \<Rightarrow> route_config \<Rightarrow> (route_config \<times> string) cfg" where
  "location_lines s out =
     (case read_next_line s of
        None \<Rightarrow> fail (''unexpected end of config: missing '' @ quoted ''}'')
      | Some (trimmed, rest) \<Rightarrow>
          if trimmed = ''}'' then Inr (out, rest)
          else case parse_route_directive out (tokenize trimmed) of
                 Inl e \<Rightarrow> Inl e
               | Inr out' \<Rightarrow> location_lines rest out')"
  by pat_completeness auto
termination
  by (relation "measure (\<lambda>(s, out). length s)") (auto dest: read_next_line_less)

declare location_lines.simps [simp del]

definition parse_location_block :: "string \<Rightarrow> string \<Rightarrow> (route_config \<times> string) cfg" where
  "parse_location_block s path = location_lines s (new_route\<lparr>rc_path := path\<rparr>)"

lemma location_lines_less: "location_lines s out = Inr (r, rest) \<Longrightarrow> length rest < length s"
proof (induction s out rule: location_lines.induct)
  case (1 s out)
  show ?case
  proof (cases "read_next_line s")
    case None
    with "1.prems" show ?thesis by (simp add: location_lines.simps [of s] fail_def)
  next
    case (Some lr)
    then obtain l m where n: "read_next_line s = Some (l, m)" by (cases lr) simp
    note lt = read_next_line_less [OF n]
    show ?thesis
    proof (cases "l = ''}''")
      case True
      with n "1.prems" lt show ?thesis by (simp add: location_lines.simps [of s])
    next
      case False
      with n "1.prems" obtain out' where d: "parse_route_directive out (tokenize l) = Inr out'"
        and rec: "location_lines m out' = Inr (r, rest)"
        by (simp add: location_lines.simps [of s] split: sum.splits)
      from "1.IH" [OF n refl False d rec] lt show ?thesis by simp
    qed
  qed
qed

lemma expect_open_brace_less: "expect_open_brace s c = Inr rest \<Longrightarrow> length rest < length s"
  by (auto simp: expect_open_brace_def fail_def split: option.splits if_splits dest: read_next_line_less)

function parse_server_block :: "string \<Rightarrow> server_config \<Rightarrow> (server_config \<times> string) cfg" where
  "parse_server_block s srv =
     (case read_next_line s of
        None \<Rightarrow> fail (''unexpected end of config: missing '' @ quoted ''}'')
      | Some (trimmed, rest) \<Rightarrow>
          if trimmed = ''}'' then Inr (srv, rest)
          else let words = tokenize trimmed in
          case words of
            [] \<Rightarrow> Inl Undefined_Behaviour
          | key # _ \<Rightarrow>
            if key = ''location'' then
              (if length words \<noteq> 2 then fail ''location requires exactly a path''
               else case expect_open_brace rest ''location'' of
                      Inl e \<Rightarrow> Inl e
                    | Inr rest' \<Rightarrow>
                       (case parse_location_block rest' (words ! 1) of
                          Inl e \<Rightarrow> Inl e
                        | Inr (route, rest'') \<Rightarrow>
                            parse_server_block rest'' (srv\<lparr>sc_routes := sc_routes srv @ [route]\<rparr>)))
            else case parse_directive srv words of
                   Inl e \<Rightarrow> Inl e
                 | Inr srv' \<Rightarrow> parse_server_block rest srv')"
  by pat_completeness auto
termination
  by (relation "measure (\<lambda>(s, srv). length s)")
     (auto simp: parse_location_block_def
        dest!: read_next_line_less expect_open_brace_less location_lines_less)

declare parse_server_block.simps [simp del]

lemma parse_server_block_less:
  "parse_server_block s srv = Inr (srv', rest) \<Longrightarrow> length rest < length s"
proof (induction s srv rule: parse_server_block.induct)
  case (1 s srv)
  show ?case
  proof (cases "read_next_line s")
    case None
    with "1.prems" show ?thesis by (simp add: parse_server_block.simps [of s] fail_def)
  next
    case (Some lr)
    then obtain l m where n: "read_next_line s = Some (l, m)" by (cases lr) simp
    note lt = read_next_line_less [OF n]
    show ?thesis
    proof (cases "l = ''}''")
      case True
      with n "1.prems" lt show ?thesis by (simp add: parse_server_block.simps [of s])
    next
      case nb: False
      show ?thesis
      proof (cases "tokenize l")
        case Nil
        with n "1.prems" nb show ?thesis by (simp add: parse_server_block.simps [of s])
      next
        case (Cons key args)
        show ?thesis
        proof (cases "key = ''location''")
          case True
          from "1.prems" n nb Cons True obtain m' route m'' where
            b: "length (tokenize l) = 2" "expect_open_brace m ''location'' = Inr m'"
              "parse_location_block m' (tokenize l ! 1) = Inr (route, m'')"
            and rec: "parse_server_block m'' (srv\<lparr>sc_routes := sc_routes srv @ [route]\<rparr>) = Inr (srv', rest)"
            by (auto simp: parse_server_block.simps [of s] fail_def Let_def split: sum.splits if_splits)
          have "length rest < length m''"
            using "1.IH"(1) [OF n refl nb refl Cons True _ b(2,3) refl rec] b(1) by simp
          then show ?thesis
            using lt expect_open_brace_less [OF b(2)] location_lines_less b(3)
            by (fastforce simp: parse_location_block_def)
        next
          case False
          from "1.prems" n nb Cons False obtain srv1 where d: "parse_directive srv (tokenize l) = Inr srv1"
            and rec: "parse_server_block m srv1 = Inr (srv', rest)"
            by (auto simp: parse_server_block.simps [of s] Let_def split: sum.splits)
          from "1.IH"(2) [OF n refl nb refl Cons False d rec] lt show ?thesis by simp
        qed
      qed
    qed
  qed
qed

section \<open>Validation\<close>

text \<open>The first error in the order of the source's loops; \<open>None\<close> where \<open>validate\<close> returns true.\<close>

fun first_some :: "('a \<Rightarrow> 'b option) \<Rightarrow> 'a list \<Rightarrow> 'b option" where
  "first_some f [] = None"
| "first_some f (x # xs) = (case f x of Some e \<Rightarrow> Some e | None \<Rightarrow> first_some f xs)"

definition route_error :: "route_config \<Rightarrow> string option" where
  "route_error route =
     (if rc_path route = [] \<or> hd (rc_path route) \<noteq> CHR ''/''
      then Some (''route path must start with '' @ quoted ''/'' @ '': '' @ quoted (rc_path route))
      else if rc_redirect_code route \<noteq> 0 \<and> rc_redirect_code route \<noteq> 301 \<and> rc_redirect_code route \<noteq> 302
      then Some (''redirect code must be 301 or 302, got '' @ show_int (rc_redirect_code route))
      else None)"

definition server_error :: "server_config \<Rightarrow> string option" where
  "server_error srv =
     (if sc_port srv < 1 \<or> 65535 < sc_port srv then Some ''port must be between 1 and 65535''
      else first_some route_error (sc_routes srv))"

fun duplicate_error :: "server_config list \<Rightarrow> string option" where
  "duplicate_error [] = None"
| "duplicate_error (si # rest) =
     (case first_some
             (\<lambda>sj. if sc_host si = sc_host sj \<and> sc_port si = sc_port sj
                   then Some (''duplicate listen: '' @ sc_host si @ '':'' @ show_int (sc_port si))
                   else None) rest of
        Some e \<Rightarrow> Some e
      | None \<Rightarrow> duplicate_error rest)"

definition validate :: "server_config list \<Rightarrow> string option" where
  "validate servers =
     (case first_some server_error servers of
        Some e \<Rightarrow> Some e
      | None \<Rightarrow> duplicate_error servers)"

section \<open>The whole file\<close>

record config =
  cf_servers :: "server_config list"
  cf_error :: string

definition new_config :: config where
  "new_config = \<lparr>cf_servers = [], cf_error = []\<rparr>"

text \<open>What \<open>Config::parse\<close> does: it returns a \<open>bool\<close> and the object, or its behaviour is undefined.\<close>

datatype parse_outcome = Undefined | Returned bool config

definition stop :: "config \<Rightarrow> cfg_error \<Rightarrow> parse_outcome" where
  "stop c e =
     (case e of Config_Error msg \<Rightarrow> Returned False (c\<lparr>cf_error := msg\<rparr>)
              | Undefined_Behaviour \<Rightarrow> Undefined)"

function config_lines :: "string \<Rightarrow> config \<Rightarrow> bool \<Rightarrow> parse_outcome" where
  "config_lines s c found_server =
     (case read_next_line s of
        None \<Rightarrow>
          if \<not> found_server then stop c (Config_Error ''config file is empty'')
          else (case validate (cf_servers c) of
                  Some e \<Rightarrow> stop c (Config_Error e)
                | None \<Rightarrow> Returned True c)
      | Some (trimmed, rest) \<Rightarrow>
          let words = tokenize trimmed in
          case words of
            [] \<Rightarrow> stop c Undefined_Behaviour
          | key # _ \<Rightarrow>
            if key = ''server'' then
              (if length words \<noteq> 1
               then stop c (Config_Error (''expected '' @ quoted ''server'' @ '' alone on its line''))
               else case expect_open_brace rest ''server'' of
                      Inl e \<Rightarrow> stop c e
                    | Inr rest' \<Rightarrow>
                       (case parse_server_block rest' new_server of
                          Inl e \<Rightarrow> stop c e
                        | Inr (server, rest'') \<Rightarrow>
                            config_lines rest'' (c\<lparr>cf_servers := cf_servers c @ [server]\<rparr>) True))
            else stop c (Config_Error (''expected '' @ quoted ''server'' @ '' block, got '' @ quoted key)))"
  by pat_completeness auto
termination
  by (relation "measure (\<lambda>(s, c, f). length s)")
     (auto dest!: read_next_line_less expect_open_brace_less parse_server_block_less)

declare config_lines.simps [simp del]

definition parse_config :: "'w sys \<Rightarrow> 'w \<Rightarrow> string \<Rightarrow> config \<Rightarrow> parse_outcome" where
  "parse_config os w filepath c =
     (case sys_read_file os w (c_str filepath) of
        None \<Rightarrow> stop c (Config_Error (''cannot open config file: '' @ filepath))
      | Some content \<Rightarrow> config_lines content c False)"

end
