(* ===== verification/Gateway.thy ===== *)
theory Gateway
  imports Request Config
begin

text \<open>
  The CGI executor of \<open>src/src/CGI.cpp\<close>: the environment and command line a script gets, and the
  loop that collects its output under a deadline, between the blocking write of the body and the
  blocking wait for the child's end. The kernel's answers and the child process are parameters: a run
  is the list of what the calls of each turn of the loop return.
\<close>

section \<open>What the script is given\<close>

text \<open>One \<open>HTTP_*\<close> variable: the header name in upper case with dashes as underscores.\<close>

definition http_variable :: "string \<Rightarrow> string" where
  "http_variable name = ''HTTP_'' @ map (\<lambda>c. if c = CHR ''-'' then CHR ''_'' else toupper c) name"

definition header_variables :: "(string, string) std_map \<Rightarrow> string list" where
  "header_variables hdrs =
     map (\<lambda>(name, v). http_variable name @ ''='' @ v)
       (filter (\<lambda>(name, v). \<not> (name = ''content-type'' \<or> name = ''content-length'')) hdrs)"

text \<open>\<open>_getScriptPath\<close>: the route prefix is removed when the target's text begins with it.\<close>

definition script_target :: "request \<Rightarrow> route_config \<Rightarrow> string" where
  "script_target request route =
     (let target = (case find_char CHR ''?'' (rq_target request) of
                      Some query_pos \<Rightarrow> substr (rq_target request) 0 query_pos
                    | None \<Rightarrow> rq_target request);
          prefix = rc_path route
      in if prefix \<noteq> [] \<and> prefix \<noteq> ''/'' \<and> starts_with target prefix then
           let target = drop (length prefix) target in
           if target = [] \<or> hd target \<noteq> CHR ''/'' then ''/'' @ target else target
         else target)"

definition get_script_path :: "'w sys \<Rightarrow> 'w \<Rightarrow> request \<Rightarrow> route_config \<Rightarrow> string" where
  "get_script_path os w request route =
     (let relative = rc_root route @ script_target request route in
      case sys_realpath os w (c_str relative) of Some resolved \<Rightarrow> resolved | None \<Rightarrow> relative)"

definition set_environment :: "'w sys \<Rightarrow> 'w \<Rightarrow> request \<Rightarrow> route_config \<Rightarrow> string list" where
  "set_environment os w request route =
     (let request_target = rq_target request;
          (script_name, query_string) =
            (case find_char CHR ''?'' request_target of
               Some query_pos \<Rightarrow> (substr request_target 0 query_pos, drop (query_pos + 1) request_target)
             | None \<Rightarrow> (request_target, []))
      in [''GATEWAY_INTERFACE=CGI/1.1'',
          ''SERVER_PROTOCOL='' @ rq_protocol request,
          ''SERVER_NAME='' @ get_header_value request ''host'',
          ''REQUEST_METHOD='' @ rq_method request,
          ''SCRIPT_NAME='' @ script_name,
          ''PATH_INFO='' @ request_target,
          ''REQUEST_URI='' @ request_target,
          ''QUERY_STRING='' @ query_string,
          ''CONTENT_TYPE='' @ get_header_value request ''content-type'',
          ''CONTENT_LENGTH='' @ get_header_value request ''content-length'']
         @ header_variables (rq_headers request)
         @ [''SCRIPT_FILENAME='' @ get_script_path os w request route, ''REDIRECT_STATUS=200''])"

record launch =
  ln_program :: string
  ln_script :: string
  ln_env :: "string list"
  ln_dir :: string
  ln_stdin :: string

text \<open>The arguments of \<open>execve\<close> and \<open>chdir\<close> in the child, and what the parent writes to its input.\<close>

definition script_directory :: "string \<Rightarrow> string" where
  "script_directory path =
     (case find_last_of CHR ''/'' path of Some pos \<Rightarrow> substr path 0 pos | None \<Rightarrow> path)"

definition resolved :: "'w sys \<Rightarrow> 'w \<Rightarrow> string \<Rightarrow> string" where
  "resolved os w path =
     (case sys_realpath os w (c_str path) of Some r \<Rightarrow> r | None \<Rightarrow> path)"

definition execute_launch :: "'w sys \<Rightarrow> 'w \<Rightarrow> request \<Rightarrow> route_config \<Rightarrow> launch" where
  "execute_launch os w request route =
     (let script_path = resolved os w (get_script_path os w request route) in
      \<lparr>ln_program = resolved os w (rc_cgi_path route), ln_script = script_path,
       ln_env = set_environment os w request route, ln_dir = script_directory script_path,
       ln_stdin = (if rq_method request = ''POST'' \<and> rq_body request \<noteq> [] then rq_body request else [])\<rparr>)"

section \<open>Collecting the output\<close>

text \<open>Results of \<open>read\<close> (\<open>Got c cs\<close>: at least one byte, the bytes \<open>c # cs\<close>; \<open>Eof\<close>: 0; \<open>Again\<close>:
  \<open>EAGAIN\<close>) and of \<open>poll\<close>; \<open>Ready pollin hup\<close> has the \<open>POLLIN\<close> bit and whether \<open>POLLHUP\<close> or
  \<open>POLLERR\<close> is set.\<close>

datatype read_result = Got char string | Eof | Again | Broken

datatype poll_result = Interrupted | Poll_Error | Slice_Over | Ready bool bool

text \<open>One turn of the loop: seconds since the start, what \<open>poll\<close> and \<open>read\<close> return, and the pieces
  the final reads return until one is not positive.\<close>

record turn =
  tn_elapsed :: int
  tn_poll :: poll_result
  tn_read :: read_result
  tn_drain :: "string list"

datatype exec_end = Timed_Out | Finished string

fun execute_loop :: "turn list \<Rightarrow> string \<Rightarrow> exec_end option" where
  "execute_loop [] out = None"
| "execute_loop (t # ts) out =
     (if 5 \<le> tn_elapsed t then Some Timed_Out
      else case tn_poll t of
             Interrupted \<Rightarrow> execute_loop ts out
           | Poll_Error \<Rightarrow> Some (Finished out)
           | Slice_Over \<Rightarrow> execute_loop ts out
           | Ready pollin hup \<Rightarrow>
               let (out, stop) =
                 (if pollin then
                    (case tn_read t of
                       Got c cs \<Rightarrow> (out @ c # cs, False)
                     | Eof \<Rightarrow> (out, True)
                     | Again \<Rightarrow> (out, False)
                     | Broken \<Rightarrow> (out, True))
                  else (out, False))
               in if stop then Some (Finished out)
                  else if hup then Some (Finished (out @ concat (tn_drain t)))
                  else execute_loop ts out)"

text \<open>
  The kernel and the child as \<open>execute\<close> meets them, a parameter of the model. What a started script
  prints and does may depend on everything it is given and on the files it finds.
\<close>

record 'w gateway =
  \<comment> \<open>whether both calls of \<open>pipe\<close> and the \<open>fork\<close> succeed\<close>
  gw_pipes_ok :: bool
  gw_fork_ok :: bool
  \<comment> \<open>whether the blocking \<open>write\<close> of the body into the script's input returns\<close>
  gw_body_written :: "launch \<Rightarrow> 'w \<Rightarrow> bool"
  \<comment> \<open>what the calls of the output loop return, turn by turn\<close>
  gw_run :: "launch \<Rightarrow> 'w \<Rightarrow> turn list"
  \<comment> \<open>whether the blocking \<open>waitpid\<close> returns for a child that was killed, and for one that was not\<close>
  gw_reaped_killed :: "launch \<Rightarrow> 'w \<Rightarrow> bool"
  gw_reaped :: "launch \<Rightarrow> 'w \<Rightarrow> bool"
  \<comment> \<open>the files as the script leaves them\<close>
  gw_files :: "launch \<Rightarrow> 'w \<Rightarrow> 'w"

text \<open>\<open>CGI::execute\<close>: the output and the files behind it; \<open>None\<close> while it has not returned, which is
  for ever where the write of the body or the wait for the child's end does not return.\<close>

definition execute ::
  "'w sys \<Rightarrow> 'w gateway \<Rightarrow> 'w \<Rightarrow> request \<Rightarrow> route_config \<Rightarrow> (string \<times> 'w) option" where
  "execute os gw w request route =
     (if \<not> gw_pipes_ok gw then Some ([], w)
      else if \<not> gw_fork_ok gw then Some ([], w)
      else
        let script = execute_launch os w request route; w' = gw_files gw script w in
        if rq_method request = ''POST'' \<and> rq_body request \<noteq> [] \<and> \<not> gw_body_written gw script w then None
        else case execute_loop (gw_run gw script w) [] of
               None \<Rightarrow> None
             | Some Timed_Out \<Rightarrow> if gw_reaped_killed gw script w then Some ([], w') else None
             | Some (Finished out) \<Rightarrow> if gw_reaped gw script w then Some (out, w') else None)"

section \<open>Properties\<close>

text \<open>What one turn reads, and whether the loop goes on behind it.\<close>

definition turn_bytes :: "turn \<Rightarrow> string" where
  "turn_bytes t =
     (case tn_poll t of
        Ready pollin hup \<Rightarrow>
          (if pollin then (case tn_read t of Got c cs \<Rightarrow> c # cs | _ \<Rightarrow> []) else [])
          @ (if hup \<and> \<not> (pollin \<and> tn_read t \<in> {Eof, Broken}) then concat (tn_drain t) else [])
      | _ \<Rightarrow> [])"

definition turn_ends :: "turn \<Rightarrow> bool" where
  "turn_ends t \<longleftrightarrow>
     (case tn_poll t of
        Interrupted \<Rightarrow> False
      | Poll_Error \<Rightarrow> True
      | Slice_Over \<Rightarrow> False
      | Ready pollin hup \<Rightarrow> hup \<or> (pollin \<and> tn_read t \<in> {Eof, Broken}))"

lemma execute_loop_turn:
  "execute_loop (t # ts) out =
     (if 5 \<le> tn_elapsed t then Some Timed_Out
      else if turn_ends t then Some (Finished (out @ turn_bytes t))
      else execute_loop ts (out @ turn_bytes t))"
  by (simp add: turn_ends_def turn_bytes_def split: poll_result.split read_result.split)

declare execute_loop.simps(2) [simp del]


lemma execute_loop_output:
  "execute_loop ts out = Some (Finished res) \<Longrightarrow>
     \<exists>n < length ts. turn_ends (ts ! n) \<and> (\<forall>t \<in> set (take (Suc n) ts). tn_elapsed t < 5) \<and>
       (\<forall>t \<in> set (take n ts). \<not> turn_ends t) \<and>
       res = out @ concat (map turn_bytes (take (Suc n) ts))"
proof (induction ts arbitrary: out)
  case (Cons t ts)
  show ?case
  proof (cases "turn_ends t")
    case True
    with Cons.prems show ?thesis
      by (intro exI [of _ 0]) (auto simp: execute_loop_turn split: if_splits)
  next
    case False
    with Cons.prems have r: "execute_loop ts (out @ turn_bytes t) = Some (Finished res)"
      and e: "tn_elapsed t < 5" by (auto simp: execute_loop_turn split: if_splits)
    from Cons.IH [OF r] obtain n where "n < length ts" "turn_ends (ts ! n)"
      "\<forall>t \<in> set (take (Suc n) ts). tn_elapsed t < 5" "\<forall>t \<in> set (take n ts). \<not> turn_ends t"
      "res = out @ turn_bytes t @ concat (map turn_bytes (take (Suc n) ts))" by auto
    with False e show ?thesis by (intro exI [of _ "Suc n"]) auto
  qed
qed simp






definition idle_turn :: "int \<Rightarrow> turn" where
  "idle_turn t = \<lparr>tn_elapsed = t, tn_poll = Slice_Over, tn_read = Again, tn_drain = []\<rparr>"

definition silent_gateway :: "'w gateway" where
  "silent_gateway =
     \<lparr>gw_pipes_ok = True, gw_fork_ok = True, gw_body_written = (\<lambda>_ _. True),
      gw_run = (\<lambda>_ _. [idle_turn 2, idle_turn 5, idle_turn 7]),
      gw_reaped_killed = (\<lambda>_ _. True), gw_reaped = (\<lambda>_ _. True), gw_files = (\<lambda>_ w. w)\<rparr>"


definition no_files :: "unit sys" where
  "no_files =
     \<lparr>sys_stat = (\<lambda>_ _. None), sys_exists = (\<lambda>_ _. False), sys_readable = (\<lambda>_ _. False),
      sys_writable = (\<lambda>_ _. False), sys_read_file = (\<lambda>_ _. None),
      sys_list_dir = (\<lambda>_ _. None), sys_write_file = (\<lambda>_ _ _. None),
      sys_append_file = (\<lambda>_ _ _. None), sys_unlink = (\<lambda>_ _. None),
      sys_stale_isdir = (\<lambda>_ _. False), sys_realpath = (\<lambda>_ _. None)\<rparr>"


text \<open>
  C7. What the executor returns is what the script wrote: a non-empty result is the concatenation
  of all bytes read in the turns up to the one that ended the loop, in order and with none missing,
  and no turn up to there was past the deadline.
\<close>

theorem execute_output:
  assumes "execute os gw w request route = Some (raw, w')" and "raw \<noteq> []"
  shows "\<exists>ts t us. gw_run gw (execute_launch os w request route) w = ts @ t # us \<and>
    raw = concat (map turn_bytes (ts @ [t])) \<and> turn_ends t \<and>
    list_all (\<lambda>t. \<not> turn_ends t) ts \<and> list_all (\<lambda>t. tn_elapsed t < 5) (ts @ [t])"
proof -
  let ?run = "gw_run gw (execute_launch os w request route) w"
  have "execute_loop ?run [] = Some (Finished raw)"
    using assms by (auto simp: execute_def Let_def split: if_splits option.splits exec_end.splits)
  from execute_loop_output [OF this] obtain n where n: "n < length ?run" "turn_ends (?run ! n)"
    "\<forall>t \<in> set (take (Suc n) ?run). tn_elapsed t < 5" "\<forall>t \<in> set (take n ?run). \<not> turn_ends t"
    "raw = concat (map turn_bytes (take (Suc n) ?run))" by auto
  have s: "take (Suc n) ?run = take n ?run @ [?run ! n]" using n(1) by (rule take_Suc_conv_app_nth)
  show ?thesis
    using n(2-) id_take_nth_drop [OF n(1)] unfolding s
    by (intro exI [of _ "take n ?run"] exI [of _ "?run ! n"] exI [of _ "drop (Suc n) ?run"])
       (simp add: list_all_iff)
qed

definition hello_gateway :: "'w gateway" where
  "hello_gateway = silent_gateway
     \<lparr>gw_run := (\<lambda>l _. [\<lparr>tn_elapsed = 0, tn_poll = Ready True False, tn_read = Got CHR ''P'' (''ROGRAM='' @ ln_program l), tn_drain = []\<rparr>,
                      \<lparr>tn_elapsed = 1, tn_poll = Ready False True, tn_read = Again, tn_drain = [''!'']\<rparr>])\<rparr>"

lemma hello_output: "execute no_files hello_gateway () new_request new_route = Some (''PROGRAM=!'', ())"
  by code_simp

theorem execute_output_witness:
  "\<exists>ts t us. gw_run hello_gateway (execute_launch no_files () new_request new_route) () = ts @ t # us \<and>
    ''PROGRAM=!'' = concat (map turn_bytes (ts @ [t])) \<and> turn_ends t \<and>
    list_all (\<lambda>t. \<not> turn_ends t) ts \<and> list_all (\<lambda>t. tn_elapsed t < 5) (ts @ [t])"
  by (rule execute_output [OF hello_output]) simp

end
