(* ===== verification/Handler.thy ===== *)
theory Handler
  imports Response Paths Gateway
begin

text \<open>
  The request handlers of \<open>src/src/HTTPHandler.cpp\<close>: \<open>handle_request\<close> with the order of its checks,
  the method handlers, the directory listing, and the two functions that turn the output of a CGI
  script into a response. Handlers that change files return the new world with the response;
  \<open>handle_request\<close> returns \<open>None\<close> where the CGI executor has not returned.
\<close>

section \<open>Error pages\<close>

definition get_error_page :: "int \<Rightarrow> server_config \<Rightarrow> string" where
  "get_error_page status_code server =
     (case map_of (sc_error_pages server) status_code of Some page \<Rightarrow> page | None \<Rightarrow> [])"

section \<open>GET\<close>

definition autoindex_entry :: "'w sys \<Rightarrow> 'w \<Rightarrow> string \<Rightarrow> string \<Rightarrow> string" where
  "autoindex_entry os w path name =
     (let full_path = (if last path \<noteq> CHR ''/'' then path @ ''/'' else path) @ name;
          st = sys_stat os w (c_str full_path);
          display_name = (if st = Some True then name @ ''/'' else name);
          isdir = (case st of Some d \<Rightarrow> d | None \<Rightarrow> sys_stale_isdir os w (c_str full_path))
      in ''<a href='' @ [CHR 0x22] @ name @ (if isdir then ''/'' else []) @ [CHR 0x22] @ ''>''
         @ display_name @ ''</a>'' @ [LF])"

definition generate_autoindex ::
  "'w sys \<Rightarrow> 'w \<Rightarrow> string \<Rightarrow> string \<Rightarrow> server_config \<Rightarrow> response" where
  "generate_autoindex os w path uri server =
     (case sys_list_dir os w (c_str path) of
        None \<Rightarrow> error_404 os w (get_error_page 404 server)
      | Some names \<Rightarrow>
          success_200
            (''<html>'' @ [LF] @ ''<head><title>Index of '' @ uri @ ''</title></head>'' @ [LF] @
             ''<body>'' @ [LF] @ ''<h1>Index of '' @ uri @ ''</h1><hr><pre>'' @ [LF] @
             concat (map (autoindex_entry os w path) (filter (\<lambda>name. name \<noteq> ''.'') names)) @
             ''</pre><hr></body>'' @ [LF] @ ''</html>'')
            ''text/html'')"

definition request_path :: "request \<Rightarrow> route_config \<Rightarrow> string" where
  "request_path request route =
     sanitize_path (strip_route_prefix (strip_query_string (rq_target request)) (rc_path route))"

definition root_directory :: "route_config \<Rightarrow> string" where
  "root_directory route = (if rc_root route = [] then ''files'' else rc_root route)"

text \<open>The part of \<open>handle_get\<close> behind the choice of the file.\<close>

definition serve_file :: "'w sys \<Rightarrow> 'w \<Rightarrow> string \<Rightarrow> server_config \<Rightarrow> response" where
  "serve_file os w file_path server =
     (if \<not> sys_exists os w (c_str file_path) then error_404 os w (get_error_page 404 server)
      else if \<not> sys_readable os w (c_str file_path) then error_403 os w (get_error_page 403 server)
      else case sys_read_file os w (c_str file_path) of
             None \<Rightarrow> error_500 os w (get_error_page 500 server)
           | Some body \<Rightarrow> success_200 body (get_mime_type file_path))"

definition handle_get ::
  "'w sys \<Rightarrow> 'w \<Rightarrow> request \<Rightarrow> route_config \<Rightarrow> server_config \<Rightarrow> response" where
  "handle_get os w request route server =
     (let index_file = (if rc_index route = [] then ''index.html'' else rc_index route);
          file_path = root_directory route @ request_path request route
      in case sys_stat os w (c_str file_path) of
           None \<Rightarrow> error_404 os w (get_error_page 404 server)
         | Some True \<Rightarrow>
             let index_path = file_path @ ''/'' @ index_file in
             if sys_stat os w (c_str index_path) \<noteq> None then serve_file os w index_path server
             else if rc_autoindex route
             then generate_autoindex os w file_path (strip_query_string (rq_target request)) server
             else error_404 os w (get_error_page 404 server)
         | Some False \<Rightarrow> serve_file os w file_path server)"

section \<open>POST\<close>

abbreviation BOUNDARY_PREFIX :: string where "BOUNDARY_PREFIX \<equiv> ''boundary=''"
abbreviation FILENAME_PREFIX :: string where "FILENAME_PREFIX \<equiv> ''filename='' @ [CHR 0x22]"

text \<open>
  The first file part of a multipart body: its file name and its data, as \<open>handle_post\<close> cuts them
  out; \<open>None\<close> where one of the searches the source tests fails. A file name with no closing quote
  makes the search for the blank line start at \<open>npos\<close>, which finds nothing.
\<close>

definition multipart_file :: "string \<Rightarrow> string \<Rightarrow> (string \<times> string) option" where
  "multipart_file content_type body =
     (case find_sub BOUNDARY_PREFIX content_type of
        None \<Rightarrow> None
      | Some boundary_pos \<Rightarrow>
          let boundary = ''--'' @ drop (boundary_pos + length BOUNDARY_PREFIX) content_type in
          case find_sub FILENAME_PREFIX body of
            None \<Rightarrow> None
          | Some filename_pos \<Rightarrow>
              let filename_start = filename_pos + length FILENAME_PREFIX in
              case find_char_from CHR 0x22 body filename_start of
                None \<Rightarrow> None
              | Some filename_end \<Rightarrow>
                  let filename = substr body filename_start (filename_end - filename_start) in
                  case find_sub_from crlf2 body filename_end of
                    None \<Rightarrow> None
                  | Some p \<Rightarrow>
                      let data_start = p + 4;
                          data_end = (case find_sub_from (crlf @ ''--'' @ drop 2 boundary) body data_start of
                                        Some e \<Rightarrow> e | None \<Rightarrow> length body)
                      in Some (filename, substr body data_start (data_end - data_start)))"

definition handle_post ::
  "'w sys \<Rightarrow> 'w \<Rightarrow> request \<Rightarrow> route_config \<Rightarrow> response \<times> 'w" where
  "handle_post os w request route =
     (let content_type = get_header_value request ''content-type'';
          body = rq_body request;
          uploads_dir = (if rc_upload_store route = [] then ''uploads'' else rc_upload_store route);
          received =
            (success_200 (''<html><body><h1>200 OK</h1><p>Body received: '' @ show_nat (length body)
                          @ '' bytes</p></body></html>'') ''text/html'', w)
      in if contains content_type ''multipart/form-data'' then
           (case multipart_file content_type body of
              None \<Rightarrow> received
            | Some (filename, file_data) \<Rightarrow>
               (case sys_write_file os w (c_str (uploads_dir @ ''/'' @ filename)) file_data of
                  None \<Rightarrow> received
                | Some w' \<Rightarrow>
                    (success_201 (''<html><body><h1>201 Created</h1><p>File uploaded: '' @ filename
                                  @ ''</p></body></html>'') ''text/html'', w')))
         else if contains content_type ''application/x-www-form-urlencoded'' then
           let decoded_body = url_decode body in
           (case sys_append_file os w (c_str (uploads_dir @ ''/form_data.txt'')) (decoded_body @ [LF]) of
              None \<Rightarrow> received
            | Some w' \<Rightarrow>
                (success_201 (''<html><body><h1>201 Created</h1><p>Data received: '' @ decoded_body
                              @ ''</p></body></html>'') ''text/html'', w'))
         else received)"

section \<open>DELETE\<close>

definition handle_delete ::
  "'w sys \<Rightarrow> 'w \<Rightarrow> request \<Rightarrow> route_config \<Rightarrow> server_config \<Rightarrow> response \<times> 'w" where
  "handle_delete os w request route server =
     (let target = request_path request route in
      if target = ''/'' then (error_400 os w (get_error_page 400 server), w)
      else let file_path = root_directory route @ target in
        case sys_stat os w (c_str file_path) of
          None \<Rightarrow> (error_404 os w (get_error_page 404 server), w)
        | Some True \<Rightarrow> (error_400 os w (get_error_page 400 server), w)
        | Some False \<Rightarrow>
            if \<not> sys_exists os w (c_str file_path) then (error_404 os w (get_error_page 404 server), w)
            else if \<not> sys_writable os w (c_str file_path)
            then (error_403 os w (get_error_page 403 server), w)
            else case sys_unlink os w (c_str file_path) of
                   None \<Rightarrow> (error_500 os w (get_error_page 500 server), w)
                 | Some w' \<Rightarrow>
                     (success_200 (''<html><body><h1>200 OK</h1><p>File deleted: '' @ target
                                   @ ''</p></body></html>'') ''text/html'', w'))"

section \<open>CGI output\<close>

text \<open>
  \<open>parse_cgi_response\<close>: the next line of the header section, without its line feed and a carriage
  return before it.
\<close>

definition cgi_line :: "string \<Rightarrow> string \<times> string" where
  "cgi_line s =
     (let (line, rest) = (case find_char LF s of
                            Some eol \<Rightarrow> (substr s 0 eol, drop (eol + 1) s) | None \<Rightarrow> (s, []))
      in (if line \<noteq> [] \<and> last line = CR then butlast line else line, rest))"

text \<open>One header line applied to the status and the response built so far.\<close>

definition cgi_header :: "string \<Rightarrow> int \<times> string \<times> response \<Rightarrow> int \<times> string \<times> response" where
  "cgi_header line st =
     (if line = [] then st
      else case find_char CHR '':'' line of
        None \<Rightarrow> st
      | Some colon \<Rightarrow>
          let (status_code, status_reason, response) = st;
              key = substr line 0 colon;
              val = drop (colon + 1) line;
              val = (case find_first_not_of blanks val of Some i \<Rightarrow> drop i val | None \<Rightarrow> [])
          in if key = ''Status'' then
               (case find_char SP val of
                  Some sp \<Rightarrow>
                    let code = atoi (c_str (substr val 0 sp)); reason = drop (sp + 1) val
                    in (code, reason, set_status code reason response)
                | None \<Rightarrow>
                    let code = atoi (c_str val)
                    in (code, status_reason, set_status code status_reason response))
             else (status_code, status_reason, set_header key val response))"

lemma cgi_line_less: "s \<noteq> [] \<Longrightarrow> length (snd (cgi_line s)) < length s"
  by (auto simp: cgi_line_def dest!: find_char_length split: option.splits)

function cgi_response_loop :: "string \<Rightarrow> int \<times> string \<times> response \<Rightarrow> int \<times> string \<times> response" where
  "cgi_response_loop header_section st =
     (if header_section = [] then st
      else let (line, rest) = cgi_line header_section in cgi_response_loop rest (cgi_header line st))"
  by pat_completeness auto
termination
proof (relation "measure (\<lambda>(s, st). length s)", goal_cases)
  case (2 s st x line rest)
  then show ?case using cgi_line_less [of s] by (cases "cgi_line s") simp
qed simp

text \<open>
  \<open>parse_cgi_headers\<close> has a copy of that loop of its own: line and header code over a position in the
  section. A turn that does not touch the status or the response is a \<open>continue\<close> of the source.
\<close>

definition headers_turn ::
  "string \<Rightarrow> nat \<Rightarrow> nat \<Rightarrow> int \<times> string \<times> response \<Rightarrow> int \<times> string \<times> response" where
  "headers_turn cgi_header_section pos eol st =
     (let (status_code, status_reason, response) = st;
          line = substr cgi_header_section pos (eol - pos);
          line = (if line \<noteq> [] \<and> last line = CR then butlast line else line)
      in if line = [] then (status_code, status_reason, response)
         else case find_char CHR '':'' line of
           None \<Rightarrow> (status_code, status_reason, response)
         | Some colon \<Rightarrow>
             let key = substr line 0 colon;
                 val = drop (colon + 1) line;
                 val = (case find_first_not_of blanks val of None \<Rightarrow> [] | Some vs \<Rightarrow> drop vs val)
             in if key \<noteq> ''Status'' then (status_code, status_reason, set_header key val response)
                else let (status_code, status_reason) =
                       (case find_char SP val of
                          Some sp \<Rightarrow> (atoi (c_str (substr val 0 sp)), drop (sp + 1) val)
                        | None \<Rightarrow> (atoi (c_str val), status_reason))
                     in (status_code, status_reason, set_status status_code status_reason response))"

definition headers_eol :: "string \<Rightarrow> nat \<Rightarrow> nat" where
  "headers_eol cgi_header_section pos =
     (case find_char_from LF cgi_header_section pos of
        None \<Rightarrow> length cgi_header_section | Some eol \<Rightarrow> eol)"

lemma headers_eol_ge: "pos < length s \<Longrightarrow> pos \<le> headers_eol s pos"
  by (auto simp: headers_eol_def find_char_from_def split: option.split)

function cgi_headers_loop ::
  "string \<Rightarrow> nat \<Rightarrow> int \<times> string \<times> response \<Rightarrow> int \<times> string \<times> response" where
  "cgi_headers_loop cgi_header_section pos st =
     (if \<not> pos < length cgi_header_section then st
      else let eol = headers_eol cgi_header_section pos
           in cgi_headers_loop cgi_header_section (eol + 1) (headers_turn cgi_header_section pos eol st))"
  by pat_completeness auto
termination
proof (relation "measure (\<lambda>(s, pos, st). length s - pos)", goal_cases)
  case (2 s pos st eol)
  then show ?case using headers_eol_ge [of pos s] by simp
qed simp

declare cgi_response_loop.simps [simp del] cgi_headers_loop.simps [simp del]

definition parse_cgi_response :: "'w sys \<Rightarrow> 'w \<Rightarrow> string \<Rightarrow> server_config \<Rightarrow> response" where
  "parse_cgi_response os w raw server =
     (case (case find_sub crlf2 raw of
              Some split \<Rightarrow> Some (substr raw 0 split, drop (split + 4) raw)
            | None \<Rightarrow>
                (case find_sub [LF, LF] raw of
                   Some split \<Rightarrow> Some (substr raw 0 split, drop (split + 2) raw)
                 | None \<Rightarrow> None)) of
        None \<Rightarrow> error_500 os w (get_error_page 500 server)
      | Some (header_section, body) \<Rightarrow>
          let (status_code, status_reason, response) =
            cgi_response_loop header_section (200, ''OK'', set_status 200 ''OK'' new_response)
          in set_body body response)"

definition parse_cgi_headers :: "string \<Rightarrow> server_config \<Rightarrow> response" where
  "parse_cgi_headers cgi_header_section server =
     (let (status_code, status_reason, response) =
        cgi_headers_loop cgi_header_section 0 (200, ''OK'', set_status 200 ''OK'' new_response)
      in response)"

section \<open>The request\<close>

definition method_allowed :: "route_config \<Rightarrow> string \<Rightarrow> bool" where
  "method_allowed route m \<longleftrightarrow> rc_allowed_methods route = [] \<or> m \<in> set (rc_allowed_methods route)"

definition effective_max_body :: "route_config \<Rightarrow> server_config \<Rightarrow> size_t" where
  "effective_max_body route server =
     (if rc_has_client_max_body_size route then rc_client_max_body_size route
      else sc_client_max_body_size server)"

definition body_refused :: "request \<Rightarrow> route_config \<Rightarrow> server_config \<Rightarrow> bool" where
  "body_refused request route server \<longleftrightarrow>
     (let max_body = effective_max_body route server;
          content_length_header = get_header_value request ''Content-Length''
      in content_length_header \<noteq> [] \<and> 0 < max_body \<and>
         max_body < atol_size (c_str content_length_header))"

definition cgi_route :: "route_config \<Rightarrow> string \<Rightarrow> bool" where
  "cgi_route route path \<longleftrightarrow>
     rc_cgi_extension route \<noteq> [] \<and> ends_with path (rc_cgi_extension route)"

definition handle_method ::
  "'w sys \<Rightarrow> 'w \<Rightarrow> request \<Rightarrow> route_config \<Rightarrow> server_config \<Rightarrow> response \<times> 'w" where
  "handle_method os w request route server =
     (if rq_method request = ''GET'' then (handle_get os w request route server, w)
      else if rq_method request = ''HEAD'' then (clear_body (handle_get os w request route server), w)
      else if rq_method request = ''POST'' then handle_post os w request route
      else if rq_method request = ''DELETE'' then handle_delete os w request route server
      else (error_405 os w (get_error_page 405 server), w))"

definition handle_request ::
  "'w sys \<Rightarrow> 'w gateway \<Rightarrow> 'w \<Rightarrow> request \<Rightarrow> route_config option \<Rightarrow> server_config \<Rightarrow>
     (response \<times> 'w) option" where
  "handle_request os gw w request route server =
     (case route of
        None \<Rightarrow> Some (error_404 os w (get_error_page 404 server), w)
      | Some route \<Rightarrow>
          if rc_redirect_code route = 301 then Some (redirect_301 (rc_redirect_url route), w)
          else if rc_redirect_code route = 302 then Some (redirect_302 (rc_redirect_url route), w)
          else if \<not> method_allowed route (rq_method request)
          then Some (error_405 os w (get_error_page 405 server), w)
          else if body_refused request route server
          then Some (error_413 os w (get_error_page 413 server), w)
          else if cgi_route route (strip_query_string (rq_target request)) then
            (case execute os gw w request route of
               None \<Rightarrow> None
             | Some (raw, w) \<Rightarrow>
                 if raw = [] then Some (error_500 os w (get_error_page 500 server), w)
                 else Some (parse_cgi_response os w raw server, w))
          else Some (handle_method os w request route server))"

end
