(* ===== verification/Routing.thy ===== *)
theory Routing
  imports Config Paths
begin

text \<open>
  Route selection, \<open>Server::match_route\<close> of \<open>src/src/Server.cpp\<close>: which routes match a URI, the
  scan for the longest one, and what the scan computes. A pointer to a route is the route itself,
  \<open>NULL\<close> is \<open>None\<close>.
\<close>

section \<open>Code\<close>

text \<open>
  The test inside the loop. On an empty path the source reads the byte before its first one; the
  length test behind it fails for an empty path whatever that byte is, so \<open>False\<close> stands for it.
\<close>

definition route_matches :: "string \<Rightarrow> route_config \<Rightarrow> bool" where
  "route_matches uri route \<longleftrightarrow>
     starts_with uri (rc_path route) \<and>
     (length uri = length (rc_path route) \<or> uri ! length (rc_path route) = CHR ''/''
      \<or> rc_path route = ''/''
      \<or> (rc_path route \<noteq> [] \<and> rc_path route ! (length (rc_path route) - 1) = CHR ''/''))"

fun match_routes :: "string \<Rightarrow> route_config list \<Rightarrow> route_config option \<Rightarrow> nat \<Rightarrow> route_config option" where
  "match_routes uri [] best_match best_length = best_match"
| "match_routes uri (route # routes) best_match best_length =
     (if route_matches uri route \<and> best_length < length (rc_path route)
      then match_routes uri routes (Some route) (length (rc_path route))
      else match_routes uri routes best_match best_length)"

definition match_route :: "string \<Rightarrow> server_config \<Rightarrow> route_config option" where
  "match_route uri config = match_routes uri (sc_routes config) None 0"

section \<open>What the scan computes\<close>

lemma route_matches_prefix: "route_matches uri route \<Longrightarrow> prefix (rc_path route) uri"
  by (simp add: route_matches_def starts_with_prefix)

lemma route_matches_same_length:
  assumes "route_matches uri q" and "route_matches uri r" and "length (rc_path q) = length (rc_path r)"
  shows "rc_path q = rc_path r"
proof -
  have "prefix (rc_path q) (rc_path r)" "prefix (rc_path r) (rc_path q)"
    using assms by (auto intro: prefix_length_prefix dest: route_matches_prefix)
  then show ?thesis by (rule prefix_order.antisym)
qed

text \<open>\<open>best_of\<close>: the first of the longest matching routes, with those before it all shorter.\<close>

definition best_of :: "string \<Rightarrow> route_config list \<Rightarrow> route_config \<Rightarrow> bool" where
  "best_of uri routes r \<longleftrightarrow>
     (\<exists>before after. routes = before @ r # after \<and> route_matches uri r \<and> rc_path r \<noteq> [] \<and>
        list_all (\<lambda>q. route_matches uri q \<longrightarrow> length (rc_path q) < length (rc_path r)) before \<and>
        list_all (\<lambda>q. route_matches uri q \<longrightarrow> length (rc_path q) \<le> length (rc_path r)) after)"

lemma best_of_facts:
  assumes "best_of uri routes r"
  shows "r \<in> set routes" "route_matches uri r" "rc_path r \<noteq> []"
    "\<forall>x \<in> set routes. route_matches uri x \<longrightarrow> length (rc_path x) \<le> length (rc_path r)"
  using assms by (auto simp: best_of_def list_all_iff less_imp_le)

lemma match_routes_cases:
  "(match_routes uri routes m n = m \<and>
      list_all (\<lambda>q. route_matches uri q \<longrightarrow> length (rc_path q) \<le> n) routes) \<or>
   (\<exists>before r after. match_routes uri routes m n = Some r \<and> routes = before @ r # after \<and>
      route_matches uri r \<and> n < length (rc_path r) \<and>
      list_all (\<lambda>q. route_matches uri q \<longrightarrow> length (rc_path q) < length (rc_path r)) before \<and>
      list_all (\<lambda>q. route_matches uri q \<longrightarrow> length (rc_path q) \<le> length (rc_path r)) after)"
proof (induction routes arbitrary: m n)
  case Nil
  show ?case by simp
next
  case (Cons x routes)
  let ?n = "length (rc_path x)"
  show ?case
  proof (cases "route_matches uri x \<and> n < ?n")
    case True
    from Cons [of "Some x" ?n] show ?thesis
    proof (elim disjE exE conjE)
      assume "match_routes uri routes (Some x) ?n = Some x"
        and "list_all (\<lambda>q. route_matches uri q \<longrightarrow> length (rc_path q) \<le> ?n) routes"
      with True show ?thesis
        by (intro disjI2 exI [of _ "[]"] exI [of _ x] exI [of _ routes]) simp
    next
      fix before r after
      assume "match_routes uri routes (Some x) ?n = Some r" "routes = before @ r # after"
        "route_matches uri r" "?n < length (rc_path r)"
        "list_all (\<lambda>q. route_matches uri q \<longrightarrow> length (rc_path q) < length (rc_path r)) before"
        "list_all (\<lambda>q. route_matches uri q \<longrightarrow> length (rc_path q) \<le> length (rc_path r)) after"
      with True show ?thesis
        by (intro disjI2 exI [of _ "x # before"] exI [of _ r] exI [of _ after]) simp
    qed
  next
    case False
    from Cons [of m n] show ?thesis
    proof (elim disjE exE conjE)
      assume "match_routes uri routes m n = m"
        and "list_all (\<lambda>q. route_matches uri q \<longrightarrow> length (rc_path q) \<le> n) routes"
      with False show ?thesis by (intro disjI1) auto
    next
      fix before r after
      assume "match_routes uri routes m n = Some r" "routes = before @ r # after"
        "route_matches uri r" "n < length (rc_path r)"
        "list_all (\<lambda>q. route_matches uri q \<longrightarrow> length (rc_path q) < length (rc_path r)) before"
        "list_all (\<lambda>q. route_matches uri q \<longrightarrow> length (rc_path q) \<le> length (rc_path r)) after"
      with False show ?thesis
        by (intro disjI2 exI [of _ "x # before"] exI [of _ r] exI [of _ after]) auto
    qed
  qed
qed

lemma match_route_best: "match_route uri config = Some r \<Longrightarrow> best_of uri (sc_routes config) r"
  using match_routes_cases [of uri "sc_routes config" None 0]
  by (fastforce simp: match_route_def best_of_def)

lemma match_route_none:
  "match_route uri config = None \<Longrightarrow>
     list_all (\<lambda>q. route_matches uri q \<longrightarrow> rc_path q = []) (sc_routes config)"
  using match_routes_cases [of uri "sc_routes config" None 0]
  by (auto simp: match_route_def list_all_iff)

lemma best_of_unique:
  assumes "best_of uri routes q" and "best_of uri routes r"
  shows "q = r"
proof -
  obtain a b where q: "routes = a @ q # b" "route_matches uri q"
      "\<forall>x \<in> set a. route_matches uri x \<longrightarrow> length (rc_path x) < length (rc_path q)"
      "\<forall>x \<in> set b. route_matches uri x \<longrightarrow> length (rc_path x) \<le> length (rc_path q)"
    using assms(1) by (auto simp: best_of_def list_all_iff)
  obtain c d where r: "routes = c @ r # d" "route_matches uri r"
      "\<forall>x \<in> set c. route_matches uri x \<longrightarrow> length (rc_path x) < length (rc_path r)"
      "\<forall>x \<in> set d. route_matches uri x \<longrightarrow> length (rc_path x) \<le> length (rc_path r)"
    using assms(2) by (auto simp: best_of_def list_all_iff)
  have "a @ q # b = c @ r # d" using q(1) r(1) by simp
  then consider us where "a = c @ r # us" | "q = r" | us where "c = a @ q # us"
    by (auto simp: append_eq_append_conv2 append_eq_Cons_conv Cons_eq_append_conv)
  then show ?thesis
  proof cases
    case 1
    then have "length (rc_path r) < length (rc_path q)" using q(3) r(2) by simp
    moreover have "length (rc_path q) \<le> length (rc_path r)"
      using r q(2) q(1) \<open>a = c @ r # us\<close> by auto
    ultimately show ?thesis by simp
  next
    case 2
    then show ?thesis .
  next
    case 3
    then have "length (rc_path q) < length (rc_path r)" using r(3) q(2) by simp
    moreover have "length (rc_path r) \<le> length (rc_path q)"
      using q r(2) r(1) \<open>c = a @ q # us\<close> by auto
    ultimately show ?thesis by simp
  qed
qed

section \<open>Properties\<close>

text \<open>
  C20. Longest match: \<open>match_route\<close> returns a route exactly when that route matches the URI with a
  non-empty path, every matching route before it in the configuration has a shorter path and none
  behind it has a longer one. The scan with its running best implements this choice.
\<close>

theorem match_route_longest:
  "match_route uri config = Some r \<longleftrightarrow> best_of uri (sc_routes config) r"
proof (cases "match_route uri config")
  case None
  then have "\<not> best_of uri (sc_routes config) r"
    using match_route_none [OF None] by (auto simp: best_of_def)
  then show ?thesis by (simp add: None)
next
  case (Some q)
  then show ?thesis using match_route_best [OF Some] best_of_unique by auto
qed

text \<open>
  Order independence: when no two routes of a server have the same path, the order in which the
  configuration lists them does not decide which one serves a URI.
\<close>

theorem match_route_order_independent:
  assumes "distinct (map rc_path (sc_routes c))" and "set (sc_routes c) = set (sc_routes c')"
  shows "match_route uri c = match_route uri c'"
proof -
  have step: "match_route uri d' = Some r"
    if m: "match_route uri d = Some r" and s: "set (sc_routes d) = set (sc_routes d')"
      and u: "\<forall>x \<in> set (sc_routes d). \<forall>y \<in> set (sc_routes d). rc_path x = rc_path y \<longrightarrow> x = y"
    for d d' r
  proof -
    have r: "r \<in> set (sc_routes d)" "route_matches uri r" "rc_path r \<noteq> []"
      and max: "\<forall>x \<in> set (sc_routes d). route_matches uri x \<longrightarrow> length (rc_path x) \<le> length (rc_path r)"
      using best_of_facts [OF match_route_best [OF m]] by blast+
    have "match_route uri d' \<noteq> None"
      using match_route_none [of uri d'] r s by (auto simp: list_all_iff)
    then obtain q where q: "match_route uri d' = Some q" by auto
    have q': "q \<in> set (sc_routes d')" "route_matches uri q"
        "\<forall>x \<in> set (sc_routes d'). route_matches uri x \<longrightarrow> length (rc_path x) \<le> length (rc_path q)"
      using best_of_facts [OF match_route_best [OF q]] by blast+
    then have "length (rc_path q) = length (rc_path r)" using r max s by (simp add: le_antisym)
    then have "q = r" using u q' r s route_matches_same_length by metis
    with q show ?thesis by simp
  qed
  have u: "\<forall>x \<in> set (sc_routes c). \<forall>y \<in> set (sc_routes c). rc_path x = rc_path y \<longrightarrow> x = y"
    using assms(1) by (auto simp: distinct_map inj_on_def)
  show ?thesis
  proof (cases "match_route uri c")
    case (Some r)
    then show ?thesis using step [OF Some assms(2) u] by simp
  next
    case None
    show ?thesis
    proof (cases "match_route uri c'")
      case (Some r)
      then show ?thesis using step [OF Some assms(2) [symmetric]] u assms(2) by simp
    qed (simp add: None)
  qed
qed

definition two_routes :: server_config where
  "two_routes = new_server\<lparr>sc_routes := [new_route\<lparr>rc_path := ''/img''\<rparr>, new_route\<lparr>rc_path := ''/''\<rparr>]\<rparr>"

theorem match_route_order_independent_witness:
  "match_route ''/img/a.png'' two_routes =
     match_route ''/img/a.png'' (two_routes\<lparr>sc_routes := rev (sc_routes two_routes)\<rparr>)"
  by (rule match_route_order_independent) (simp_all add: two_routes_def insert_commute)

lemma components_slash: "components (p @ CHR ''/'' # q) = components p @ components q"
proof (induction p rule: components.induct)
  case 1
  show ?case by simp
next
  case (2 c p)
  show ?case
  proof (cases "c = CHR ''/''")
    case True
    with 2 show ?thesis by simp
  next
    case c: False
    show ?thesis
    proof (cases p)
      case Nil
      with c show ?thesis by (cases q) simp_all
    next
      case (Cons d p')
      show ?thesis
      proof (cases "d = CHR ''/''")
        case True
        with 2 c Cons show ?thesis by simp
      next
        case False
        then have ih: "components (p @ CHR ''/'' # q) = components p @ components q"
          using 2 c Cons by simp
        have ne: "components p \<noteq> []" using False Cons by (auto split: list.split)
        have e: "components (c # p @ r) =
            (case components (p @ r) of [] \<Rightarrow> [[c]] | s # ss \<Rightarrow> (c # s) # ss)" for r
          using c False Cons by simp
        from e [of "CHR ''/'' # q"] e [of "[]"] ih ne show ?thesis
          by (cases "components p") simp_all
      qed
    qed
  qed
qed

text \<open>
  A route never serves a neighbour: the route chosen for a URI names a directory above the URI
  or the URI itself, compared component by component, so a route \<open>/image\<close>
  does not serve \<open>/images/a\<close>, whose text it begins.
\<close>

theorem match_route_component_prefix:
  assumes "match_route uri config = Some r"
  shows "prefix (components (rc_path r)) (components uri)"
proof -
  have m: "route_matches uri r" using match_route_best [OF assms] by (auto simp: best_of_def)
  then obtain z where z: "uri = rc_path r @ z" using route_matches_prefix by (auto simp: prefix_def)
  from m consider "z = []" | w where "z = CHR ''/'' # w" | p where "rc_path r = p @ ''/''"
    unfolding route_matches_def z
    by (cases z; cases "rc_path r" rule: rev_cases) (auto simp: nth_append)
  then show ?thesis
    by cases (simp_all add: z components_slash)
qed

theorem match_route_component_prefix_witness:
  "prefix (components ''/img'') (components ''/img/a.png'')"
  using match_route_component_prefix [of "''/img/a.png''" two_routes "new_route\<lparr>rc_path := ''/img''\<rparr>"]
  by code_simp

end
