(* ===== verification/ConfigProps.thy ===== *)
theory ConfigProps
  imports Config
begin

text \<open>
  What the configuration parser guarantees: the abstract meaning of \<open>validate\<close>, the facts about an
  accepted configuration that the server relies on, the treatment of comments, the value of a body
  size with its suffix, and the line on which the parser's behaviour is undefined.
\<close>

section \<open>Specification of a valid configuration\<close>

definition valid_route :: "route_config \<Rightarrow> bool" where
  "valid_route r \<longleftrightarrow> prefix ''/'' (rc_path r) \<and> rc_redirect_code r \<in> {0, 301, 302}"

definition valid_server :: "server_config \<Rightarrow> bool" where
  "valid_server s \<longleftrightarrow> 1 \<le> sc_port s \<and> sc_port s \<le> 65535 \<and> list_all valid_route (sc_routes s)"

definition valid_servers :: "server_config list \<Rightarrow> bool" where
  "valid_servers ss \<longleftrightarrow> list_all valid_server ss \<and> distinct (map (\<lambda>s. (sc_host s, sc_port s)) ss)"

lemma first_some_None: "first_some f xs = None \<longleftrightarrow> (\<forall>x \<in> set xs. f x = None)"
  by (induction xs) (auto split: option.splits)

lemma first_some_Some: "first_some f xs = Some e \<Longrightarrow> \<exists>x \<in> set xs. f x = Some e"
  by (induction xs) (auto split: option.splits)

lemma route_error_None: "route_error r = None \<longleftrightarrow> valid_route r"
  by (cases "rc_path r") (auto simp: route_error_def valid_route_def)

lemma server_error_None: "server_error s = None \<longleftrightarrow> valid_server s"
  by (auto simp: server_error_def valid_server_def first_some_None route_error_None list_all_iff)

lemma duplicate_error_None:
  "duplicate_error ss = None \<longleftrightarrow> distinct (map (\<lambda>s. (sc_host s, sc_port s)) ss)"
  by (induction ss) (force simp: first_some_None split: option.splits if_splits dest!: first_some_Some)+

lemma validate_None: "validate ss = None \<longleftrightarrow> valid_servers ss"
proof -
  have "first_some server_error ss = None \<longleftrightarrow> list_all valid_server ss"
    by (simp add: first_some_None server_error_None list_all_iff)
  then show ?thesis
    by (cases "first_some server_error ss")
       (simp_all add: validate_def valid_servers_def duplicate_error_None)
qed

text \<open>
  C30. \<open>validate\<close> decides validity: it accepts a list of servers exactly when every port is a TCP
  port, every route path starts with a slash, every redirect code is unset, 301 or 302, and no two
  servers share both host and port. The loops, the early returns and the pairwise comparison of the
  code compute this predicate.
\<close>

theorem validate_decides: "validate ss = None \<longleftrightarrow>
    (\<forall>s \<in> set ss. 1 \<le> sc_port s \<and> sc_port s \<le> 65535 \<and>
       (\<forall>r \<in> set (sc_routes s). prefix ''/'' (rc_path r) \<and> rc_redirect_code r \<in> {0, 301, 302})) \<and>
    distinct (map (\<lambda>s. (sc_host s, sc_port s)) ss)"
  by (auto simp: validate_None valid_servers_def valid_server_def valid_route_def list_all_iff)

theorem validate_decides_witness:
  "validate [new_server, new_server\<lparr>sc_port := 8081\<rparr>] = None \<and> validate [new_server, new_server] \<noteq> None"
  using validate_decides [of "[new_server, new_server\<lparr>sc_port := 8081\<rparr>]"]
    validate_decides [of "[new_server, new_server]"]
  by (simp add: new_server_def)

section \<open>An accepted file\<close>

lemma config_lines_valid:
  "config_lines s c f = Returned True c' \<Longrightarrow> (f \<longrightarrow> cf_servers c \<noteq> []) \<Longrightarrow>
     cf_servers c' \<noteq> [] \<and> valid_servers (cf_servers c')"
proof (induction s c f rule: config_lines.induct)
  case (1 s c f)
  show ?case
  proof (cases "read_next_line s")
    case None
    with "1.prems" show ?thesis
      by (auto simp: config_lines.simps [of s] stop_def validate_None split: if_splits option.splits)
  next
    case (Some lr)
    then obtain l m where n: "read_next_line s = Some (l, m)" by (cases lr) simp
    show ?thesis
    proof (cases "tokenize l")
      case Nil
      with n "1.prems" show ?thesis by (simp add: config_lines.simps [of s] stop_def)
    next
      case (Cons key args)
      from "1.prems"(1) n Cons obtain m' srv m'' where b: "key = ''server''" "length (tokenize l) = 1"
          "expect_open_brace m ''server'' = Inr m'" "parse_server_block m' new_server = Inr (srv, m'')"
        and rec: "config_lines m'' (c\<lparr>cf_servers := cf_servers c @ [srv]\<rparr>) True = Returned True c'"
        by (auto simp: config_lines.simps [of s] stop_def split: if_splits sum.splits cfg_error.splits)
      show ?thesis
        using "1.IH" [OF n refl refl Cons b(1) _ b(3,4) refl rec] b(2) by simp
    qed
  qed
qed

lemma parse_config_valid:
  assumes "parse_config os w f new_config = Returned True c"
  shows "cf_servers c \<noteq> [] \<and> valid_servers (cf_servers c)"
  using assms config_lines_valid [of _ new_config False c]
  by (auto simp: parse_config_def stop_def new_config_def split: option.splits)

text \<open>
  C28. What the server may assume of a configuration it starts with: if \<open>Config::parse\<close> on a fresh
  object returns true, the file described at least one server, and the servers are valid in the
  sense of \<open>validate_decides\<close>.
\<close>

theorem parsed_config_valid:
  assumes "parse_config os w f new_config = Returned True c"
  shows "cf_servers c \<noteq> [] \<and> valid_servers (cf_servers c)"
  by (rule parse_config_valid [OF assms])

text \<open>An operating system with one configuration file, for closed instances.\<close>

definition one_file_sys :: "string \<Rightarrow> unit sys" where
  "one_file_sys content =
     \<lparr>sys_stat = (\<lambda>_ _. None), sys_exists = (\<lambda>_ _. True), sys_readable = (\<lambda>_ _. True),
      sys_writable = (\<lambda>_ _. False), sys_read_file = (\<lambda>_ _. Some content),
      sys_list_dir = (\<lambda>_ _. None), sys_write_file = (\<lambda>_ _ _. None),
      sys_append_file = (\<lambda>_ _ _. None), sys_unlink = (\<lambda>_ _. None),
      sys_stale_isdir = (\<lambda>_ _. False), sys_realpath = (\<lambda>_ _. None)\<rparr>"

definition sample_conf :: string where
  "sample_conf =
     ''server'' @ [LF] @ ''{'' @ [LF] @ ''listen 127.0.0.1:8081;'' @ [LF] @
     ''location /a # files'' @ [LF] @ ''{'' @ [LF] @ ''return 301 /b;'' @ [LF] @ ''}'' @ [LF] @ ''}''"

definition sample_config :: config where
  "sample_config = new_config\<lparr>cf_servers :=
     [new_server\<lparr>sc_host := ''127.0.0.1'', sc_port := 8081, sc_has_listen := True,
        sc_routes := [new_route\<lparr>rc_path := ''/a'', rc_redirect_code := 301,
                       rc_redirect_url := ''/b''\<rparr>]\<rparr>]\<rparr>"

lemma sample_conf_parses:
  "parse_config (one_file_sys sample_conf) () ''a.conf'' new_config = Returned True sample_config"
  by code_simp

theorem parsed_config_valid_witness:
  "cf_servers sample_config \<noteq> [] \<and> valid_servers (cf_servers sample_config)"
  by (rule parsed_config_valid [OF sample_conf_parses])

section \<open>Comments\<close>

lemma clean_line_comment:
  assumes "CHR ''#'' \<notin> set l"
  shows "clean_line (l @ CHR ''#'' # c) = clean_line l"
proof -
  have "find_char CHR ''#'' (l @ CHR ''#'' # c) = Some (length l)"
    using assms by (rule find_char_append)
  moreover have "find_char CHR ''#'' l = None" using assms by (simp add: find_char_None)
  ultimately show ?thesis by (simp add: clean_line_def substr_0)
qed

text \<open>
  Comments do not matter: a line with a comment behind its text reads like the line without it,
  so the next directive and the rest of the file are the same.
\<close>

theorem comment_ignored:
  assumes "CHR ''#'' \<notin> set l" and "LF \<notin> set l" and "LF \<notin> set c"
  shows "read_next_line ((l @ CHR ''#'' # c) @ LF # rest) = read_next_line (l @ LF # rest)"
proof -
  have g: "getline (x @ LF # rest) = Some (x, rest)" if "LF \<notin> set x" for x
  proof -
    from that have "takeWhile (\<lambda>c. c \<noteq> LF) (x @ LF # rest) = x" by (induction x) auto
    then show ?thesis by (simp add: getline_def)
  qed
  have "getline ((l @ CHR ''#'' # c) @ LF # rest) = Some (l @ CHR ''#'' # c, rest)"
    using assms by (intro g) auto
  moreover have "getline (l @ LF # rest) = Some (l, rest)" using assms by (intro g)
  ultimately show ?thesis
    by (subst (1 2) read_next_line.simps)
       (simp only: option.case prod.case clean_line_comment [OF assms(1)])
qed

theorem comment_ignored_witness:
  "read_next_line ((''index a;'' @ CHR ''#'' # ''b'') @ LF # ''}'') = Some (''index a;'', ''}'')"
  by (subst comment_ignored) code_simp+

section \<open>Body sizes\<close>

text \<open>
  A body size is a number of bytes, KB (\<open>K\<close>, \<open>k\<close>) or MB (\<open>M\<close>, \<open>m\<close>), computed modulo
  \<open>2 ^ 64\<close>: for every number that fits in \<open>size_t\<close> the limit kept is the product's remainder. A
  large enough number with a suffix therefore gives a small limit, or 0, which means no limit.
\<close>

theorem parse_size_modulo:
  assumes "n < 2 ^ 64" and "(suf, mult) \<in> {([], 1), (''K'', 2 ^ 10), (''k'', 2 ^ 10), (''M'', 2 ^ 20), (''m'', 2 ^ 20)}"
  shows "\<exists>v. parse_size (show_nat n @ suf) = Inr v \<and> unat v = n * mult mod 2 ^ 64"
proof -
  have d: "\<forall>c \<in> set (show_nat n). is_digit c" by (rule show_nat_digits)
  have last: "last (show_nat n) \<notin> {CHR ''K'', CHR ''k'', CHR ''M'', CHR ''m''}"
  proof -
    have "is_digit (last (show_nat n))" using d by simp
    then show ?thesis by (auto simp: is_digit_def code_def)
  qed
  have e: "extract_size (show_nat n) = Some (word_of_nat n)"
    using assms(1)
    by (simp add: extract_size_def dropWhile_space_digits [OF d] sign_split_digits [OF d]
        takeWhile_all_id [OF d])
  have m: "unat (word_of_nat n * word_of_nat k :: size_t) = n * k mod 2 ^ 64" for k
    by (simp only: of_nat_mult [symmetric] unat_size_mod)
  show ?thesis
    using assms(2) last m [of 1] m [of "2 ^ 10"] m [of "2 ^ 20"]
    by (auto simp: parse_size_def e Let_def)
qed

theorem parse_size_modulo_witness:
  "\<exists>v. parse_size (show_nat 17592186044416 @ ''M'') = Inr v \<and>
       unat v = 17592186044416 * 2 ^ 20 mod 2 ^ 64"
  by (rule parse_size_modulo) simp_all

section \<open>The undefined line\<close>

text \<open>
  C40. A line that holds only a semicolon has no words, and the parser reads \<open>words[0]\<close> of the empty
  vector: inside a server block, inside a location block and at the top level of the file, the
  behaviour is undefined.
\<close>

theorem lone_semicolon_undefined:
  "parse_server_block ('';'' @ LF # rest) srv = Inl Undefined_Behaviour \<and>
   parse_location_block ('';'' @ LF # rest) path = Inl Undefined_Behaviour \<and>
   config_lines ('';'' @ LF # rest) c found = Undefined"
proof -
  have "clean_line '';'' = '';''" and t: "tokenize '';'' = []" by code_simp+
  then have "read_next_line ('';'' @ LF # rest) = Some ('';'', rest)"
    by (simp add: read_next_line.simps [of "CHR '';'' # LF # rest"] getline_def)
  with t show ?thesis
    by (simp add: parse_server_block.simps [of "CHR '';'' # LF # rest"] parse_location_block_def
        location_lines.simps [of "CHR '';'' # LF # rest"] config_lines.simps [of "CHR '';'' # LF # rest"]
        parse_route_directive_def stop_def)
qed

end
