(* ===== verification/HandlerProps.thy ===== *)
theory HandlerProps
  imports Handler Routing ConfigProps
begin

text \<open>
  What the request handlers of \<open>src/src/HTTPHandler.cpp\<close> guarantee: which file a URI names, which
  files a request can read and change, how \<open>HEAD\<close> relates to \<open>GET\<close>, that responses announce the
  length of their body, and where the handlers leave the path they were meant to stay in.
\<close>

section \<open>The file a request names\<close>

lemma strip_route_prefix_components:
  assumes "route_matches uri r"
  shows "components (rc_path r) @ components (strip_route_prefix uri (rc_path r)) = components uri"
proof -
  obtain z where z: "uri = rc_path r @ z"
    using route_matches_prefix [OF assms] by (auto simp: prefix_def)
  consider "rc_path r = ''/'' \<or> rc_path r = []" | "rc_path r \<noteq> ''/''" "rc_path r \<noteq> []" by auto
  then show ?thesis
  proof cases
    case 1
    then show ?thesis by (auto simp: strip_route_prefix_def)
  next
    case 2
    have s: "strip_route_prefix uri (rc_path r) =
        (if z = [] \<or> hd z \<noteq> CHR ''/'' then CHR ''/'' # z else z)"
      using 2 by (simp add: strip_route_prefix_def starts_with_prefix z Let_def)
    have c: "components (strip_route_prefix uri (rc_path r)) = components z"
      unfolding s by (cases z) simp_all
    from assms consider "z = []" | w where "z = CHR ''/'' # w" | p where "rc_path r = p @ ''/''"
      unfolding route_matches_def z
      by (cases z; cases "rc_path r" rule: rev_cases) (auto simp: nth_append)
    then have "components (rc_path r) @ components z = components uri"
      by cases (simp_all add: z components_slash)
    with c show ?thesis by simp
  qed
qed

text \<open>
  C21. The file a request names: for the route chosen for a URI, the path below the route's root has
  the components of the URI (without its query) behind those of the route's own path, walked from
  the root. Route selection, prefix stripping and sanitising together compute this.
\<close>

theorem request_path_below_route:
  assumes "match_route (strip_query_string (rq_target req)) server = Some r"
  shows "components (request_path req r) =
    walk [] (drop (length (components (rc_path r))) (components (strip_query_string (rq_target req))))"
proof -
  have "route_matches (strip_query_string (rq_target req)) r"
    using best_of_facts [OF match_route_best [OF assms]] by simp
  from strip_route_prefix_components [OF this] show ?thesis
    unfolding request_path_def components_sanitize
    by (metis append_eq_conv_conj)
qed

definition img_request :: request where
  "img_request = new_request\<lparr>rq_method := ''GET'', rq_target := ''/img/x/../a.png?size=2''\<rparr>"

theorem request_path_below_route_witness:
  "components (request_path img_request (new_route\<lparr>rc_path := ''/img''\<rparr>)) =
     walk [] (drop (length (components (rc_path (new_route\<lparr>rc_path := ''/img''\<rparr>))))
       (components (strip_query_string (rq_target img_request))))"
  by (rule request_path_below_route [of _ two_routes]) code_simp

section \<open>Confinement\<close>

text \<open>The paths of a route: its root followed by proper segments with no NUL byte.\<close>

definition inside :: "route_config \<Rightarrow> string \<Rightarrow> bool" where
  "inside route p \<longleftrightarrow>
     (\<exists>segs. list_all (\<lambda>s. proper_segment s \<and> NUL \<notin> set s) segs \<and>
        p = root_directory route @ ''/'' @ join_segments segs)"

text \<open>What \<open>GET\<close> may ask the operating system about: a path of the route, the index file in it, and
  the entries the system lists in it.\<close>

definition may_touch :: "'w sys \<Rightarrow> 'w \<Rightarrow> route_config \<Rightarrow> string \<Rightarrow> bool" where
  "may_touch os w route p \<longleftrightarrow>
     inside route p \<or>
     (\<exists>d. inside route d \<and>
        (p = d @ ''/'' @ (if rc_index route = [] then ''index.html'' else rc_index route) \<or>
         (\<exists>names name. sys_list_dir os w (c_str d) = Some names \<and> name \<in> set names \<and>
            p = (if last d \<noteq> CHR ''/'' then d @ ''/'' else d) @ name)))"

definition same_file :: "'w sys \<Rightarrow> 'w \<Rightarrow> 'w sys \<Rightarrow> 'w \<Rightarrow> string \<Rightarrow> bool" where
  "same_file os w os' w' p \<longleftrightarrow>
     sys_stat os w p = sys_stat os' w' p \<and> sys_exists os w p = sys_exists os' w' p \<and>
     sys_readable os w p = sys_readable os' w' p \<and> sys_read_file os w p = sys_read_file os' w' p \<and>
     sys_list_dir os w p = sys_list_dir os' w' p \<and> sys_stale_isdir os w p = sys_stale_isdir os' w' p"

lemma walk_set: "x \<in> set (walk dir ss) \<Longrightarrow> x \<in> set dir \<union> set ss"
proof (induction ss arbitrary: dir)
  case (Cons s ss)
  then show ?case by (auto simp: split: if_splits dest!: Cons.IH in_set_butlastD)
qed simp

lemma components_chars: "s \<in> set (components p) \<Longrightarrow> set s \<subseteq> set p"
proof (induction p arbitrary: s rule: components.induct)
  case (2 c p)
  show ?case
  proof (cases "c = CHR ''/''")
    case True
    with 2 show ?thesis by fastforce
  next
    case c: False
    show ?thesis
    proof (cases p)
      case Nil
      with c 2 show ?thesis by simp
    next
      case (Cons d q)
      show ?thesis
      proof (cases "d = CHR ''/''")
        case True
        with 2 c Cons show ?thesis by fastforce
      next
        case False
        then have "components (c # p) =
            (case components p of [] \<Rightarrow> [[c]] | s # ss \<Rightarrow> (c # s) # ss)"
          using c Cons by simp
        moreover have "\<And>t. t \<in> set (components p) \<Longrightarrow> set t \<subseteq> set p"
          using 2 c Cons False by simp
        ultimately show ?thesis using 2(4)
          by (cases "components p") fastforce+
      qed
    qed
  qed
qed simp

lemma strip_chars:
  "set (strip_query_string t) \<subseteq> set t" "set (strip_route_prefix u p) \<subseteq> set u \<union> {CHR ''/''}"
  using set_take_subset [of _ t] set_drop_subset [of _ u]
  by (auto simp: strip_query_string_def strip_route_prefix_def substr_0 Let_def
      split: option.splits if_splits)

lemma request_path_inside:
  assumes "NUL \<notin> set (rq_target req)"
  shows "inside route (root_directory route @ request_path req route)"
proof -
  let ?u = "strip_route_prefix (strip_query_string (rq_target req)) (rc_path route)"
  have n: "NUL \<notin> set ?u" using assms strip_chars by fastforce
  have "NUL \<notin> set s" if "s \<in> set (sanitize_scan [] [] ?u)" for s
    using that n components_chars walk_set
    by (fastforce simp: sanitize_scan_components foldl_walk)
  with sanitize_scan_proper [of ?u]
  have "list_all (\<lambda>s. proper_segment s \<and> NUL \<notin> set s) (sanitize_scan [] [] ?u)"
    by (auto simp: list_all_iff)
  then show ?thesis by (auto simp: inside_def request_path_def sanitize_path_def)
qed

lemma error_page_file:
  assumes "\<forall>page \<in> set (map snd (sc_error_pages server)).
             sys_read_file os w (c_str page) = sys_read_file os' w' (c_str page)"
  shows "load_error_page os w (get_error_page st server) fallback =
    load_error_page os' w' (get_error_page st server) fallback"
  using assms
  by (force simp: load_error_page_def get_error_page_def split: option.split dest: map_of_SomeD)

text \<open>
  C3. \<open>GET\<close> reads nothing outside its route: let two file systems agree on the paths below the
  route's root (proper names only, so no dot-dot), on the index file and the listed entries of
  those directories, and on the server's error pages. Then \<open>handle_get\<close> gives the same response on
  both, whatever the target is, as long as it has no NUL byte. No other file can influence or reach
  the response.
\<close>

theorem handle_get_confined:
  assumes "NUL \<notin> set (rq_target req)"
    and "\<forall>p. may_touch os w route p \<longrightarrow> same_file os w os' w' (c_str p)"
    and "\<forall>page \<in> set (map snd (sc_error_pages server)).
           sys_read_file os w (c_str page) = sys_read_file os' w' (c_str page)"
  shows "handle_get os w req route server = handle_get os' w' req route server"
proof -
  note err = error_page_file [OF assms(3)]
  have pages: "error_404 os w (get_error_page 404 server) = error_404 os' w' (get_error_page 404 server)"
    "error_403 os w (get_error_page 403 server) = error_403 os' w' (get_error_page 403 server)"
    "error_500 os w (get_error_page 500 server) = error_500 os' w' (get_error_page 500 server)"
    by (simp_all add: error_404_def error_403_def error_500_def err)
  let ?f = "root_directory route @ request_path req route"
  let ?i = "?f @ ''/'' @ (if rc_index route = [] then ''index.html'' else rc_index route)"
  have f: "inside route ?f" using assms(1) by (rule request_path_inside)
  then have sf: "same_file os w os' w' (c_str ?f)" and si: "same_file os w os' w' (c_str ?i)"
    using assms(2) by (auto simp: may_touch_def)
  have serve: "serve_file os w p server = serve_file os' w' p server"
    if "same_file os w os' w' (c_str p)" for p
    using that by (simp add: serve_file_def same_file_def pages split: option.split)
  have list: "generate_autoindex os w ?f u server = generate_autoindex os' w' ?f u server" for u
  proof (cases "sys_list_dir os w (c_str ?f)")
    case None
    then have "sys_list_dir os' w' (c_str ?f) = None" using sf by (simp add: same_file_def)
    with None show ?thesis by (simp add: generate_autoindex_def pages)
  next
    case (Some names)
    have "autoindex_entry os w ?f name = autoindex_entry os' w' ?f name"
      if "name \<in> set names" for name
    proof -
      have "same_file os w os' w' (c_str ((if last ?f \<noteq> CHR ''/'' then ?f @ ''/'' else ?f) @ name))"
        using assms(2) f Some that unfolding may_touch_def by blast
      then show ?thesis by (simp only: autoindex_entry_def same_file_def Let_def)
    qed
    then have "map (autoindex_entry os w ?f) (filter (\<lambda>name. name \<noteq> ''.'') names) =
        map (autoindex_entry os' w' ?f) (filter (\<lambda>name. name \<noteq> ''.'') names)" by simp
    moreover have "sys_list_dir os' w' (c_str ?f) = Some names" using sf Some by (simp add: same_file_def)
    ultimately show ?thesis using Some by (simp only: generate_autoindex_def option.case)
  qed
  have "sys_stat os w (c_str ?f) = sys_stat os' w' (c_str ?f)"
    "sys_stat os w (c_str ?i) = sys_stat os' w' (c_str ?i)"
    using sf si by (simp_all add: same_file_def)
  then show ?thesis
    unfolding handle_get_def Let_def
    by (simp only: pages serve [OF sf] serve [OF si] list)
qed

text \<open>Two file systems that differ in one file outside the root.\<close>

definition secret_sys :: "string \<Rightarrow> unit sys" where
  "secret_sys content = no_files\<lparr>sys_read_file := \<lambda>_ p. if p = ''/etc/passwd'' then Some content else None\<rparr>"

theorem handle_get_confined_witness:
  "handle_get (secret_sys ''a'') () (new_request\<lparr>rq_target := ''/../etc/passwd''\<rparr>) new_route new_server =
   handle_get (secret_sys ''b'') () (new_request\<lparr>rq_target := ''/../etc/passwd''\<rparr>) new_route new_server"
proof (rule handle_get_confined)
  show "\<forall>p. may_touch (secret_sys ''a'') () new_route p \<longrightarrow>
      same_file (secret_sys ''a'') () (secret_sys ''b'') () (c_str p)"
  proof (intro allI impI)
    fix p
    assume "may_touch (secret_sys ''a'') () new_route p"
    then have "hd (c_str p) = CHR ''f''"
      by (auto simp: may_touch_def inside_def root_directory_def new_route_def c_str_def)
    then show "same_file (secret_sys ''a'') () (secret_sys ''b'') () (c_str p)"
      by (auto simp: same_file_def secret_sys_def)
  qed
qed (simp_all add: new_server_def)

section \<open>What a request can change\<close>

text \<open>A request passes the gates of \<open>handle_request\<close>: its route does not redirect, allows the
  method, accepts the announced body and does not run a script for the path.\<close>

definition passes_gates :: "request \<Rightarrow> route_config \<Rightarrow> server_config \<Rightarrow> bool" where
  "passes_gates req route server \<longleftrightarrow>
     rc_redirect_code route \<noteq> 301 \<and> rc_redirect_code route \<noteq> 302 \<and>
     method_allowed route (rq_method req) \<and> \<not> body_refused req route server \<and>
     \<not> cgi_route route (strip_query_string (rq_target req))"

lemma handle_request_gates:
  "passes_gates req route server \<Longrightarrow>
     handle_request os gw w req (Some route) server = Some (handle_method os w req route server)"
  by (simp add: handle_request_def passes_gates_def)

text \<open>A request for which \<open>handle_request\<close> itself runs a script.\<close>

definition runs_script :: "request \<Rightarrow> route_config \<Rightarrow> server_config \<Rightarrow> bool" where
  "runs_script req route server \<longleftrightarrow>
     rc_redirect_code route \<noteq> 301 \<and> rc_redirect_code route \<noteq> 302 \<and>
     method_allowed route (rq_method req) \<and> \<not> body_refused req route server \<and>
     cgi_route route (strip_query_string (rq_target req))"

lemma handle_request_blocked:
  "\<not> passes_gates req route server \<Longrightarrow> \<not> runs_script req route server \<Longrightarrow>
     handle_request os gw w req (Some route) server = Some (resp, w') \<Longrightarrow> w' = w"
  by (auto simp: handle_request_def passes_gates_def runs_script_def split: if_splits option.splits)

lemma execute_files:
  "execute os gw w req route = Some (raw, w') \<Longrightarrow>
     w' = w \<or> w' = gw_files gw (execute_launch os w req route) w"
  by (auto simp: execute_def Let_def split: if_splits option.splits exec_end.splits)

lemma handle_request_script:
  "runs_script req route server \<Longrightarrow>
     handle_request os gw w req (Some route) server = Some (resp, w') \<Longrightarrow> w' \<noteq> w \<Longrightarrow>
     w' = gw_files gw (execute_launch os w req route) w"
  by (auto simp: handle_request_def runs_script_def split: if_splits option.splits
      dest: execute_files)

definition uploads_directory :: "route_config \<Rightarrow> string" where
  "uploads_directory route = (if rc_upload_store route = [] then ''uploads'' else rc_upload_store route)"

lemma handle_post_effect:
  assumes "handle_post os w req route = (resp, w')" and "w' \<noteq> w"
  shows
    "(\<exists>name data. multipart_file (get_header_value req ''content-type'') (rq_body req) = Some (name, data) \<and>
        sys_write_file os w (c_str (uploads_directory route @ ''/'' @ name)) data = Some w') \<or>
     sys_append_file os w (c_str (uploads_directory route @ ''/form_data.txt''))
       (url_decode (rq_body req) @ [LF]) = Some w'"
  using assms
  by (fastforce simp: handle_post_def Let_def uploads_directory_def
      split: if_splits option.splits prod.splits)

lemma handle_delete_effect:
  assumes "handle_delete os w req route server = (resp, w')" and "w' \<noteq> w"
  shows "request_path req route \<noteq> ''/'' \<and>
    sys_stat os w (c_str (root_directory route @ request_path req route)) = Some False \<and>
    sys_unlink os w (c_str (root_directory route @ request_path req route)) = Some w'"
  using assms
  by (auto simp: handle_delete_def Let_def split: if_splits option.splits bool.splits)

text \<open>The file calls the methods may make on a route: what \<open>POST\<close> writes, and what \<open>DELETE\<close> removes.\<close>

definition post_writes :: "'w sys \<Rightarrow> 'w \<Rightarrow> request \<Rightarrow> route_config \<Rightarrow> 'w \<Rightarrow> bool" where
  "post_writes os w req r w' \<longleftrightarrow>
     (\<exists>name data. multipart_file (get_header_value req ''content-type'') (rq_body req) = Some (name, data) \<and>
        sys_write_file os w (c_str (uploads_directory r @ ''/'' @ name)) data = Some w') \<or>
     sys_append_file os w (c_str (uploads_directory r @ ''/form_data.txt''))
       (url_decode (rq_body req) @ [LF]) = Some w'"

definition delete_removes :: "'w sys \<Rightarrow> 'w \<Rightarrow> request \<Rightarrow> route_config \<Rightarrow> 'w \<Rightarrow> bool" where
  "delete_removes os w req r w' \<longleftrightarrow>
     (\<exists>p. inside r p \<and> p \<noteq> root_directory r @ ''/'' \<and> sys_stat os w (c_str p) = Some False \<and>
        sys_unlink os w (c_str p) = Some w')"

text \<open>
  C2. What a request without a NUL byte in its target can change through \<open>handle_request\<close>: if the
  file system changed, a route was found that does not redirect, allows the method and accepts the
  announced body, and one of three things happened. The route runs scripts for this path, and the
  files are as that script, started with \<open>execute_launch\<close>, left them. Or the method is \<open>DELETE\<close>, and
  one call of \<open>unlink\<close> removed a path below the route's root, not the root and not a directory. Or
  the method is \<open>POST\<close>, and one call wrote the file part of the multipart body to the upload
  directory, a slash and the file name exactly as the client sent it (which may lead out of that
  directory again), or appended the decoded form body to the form file there. So \<open>GET\<close>, \<open>HEAD\<close>,
  unknown methods and refused requests change nothing unless a script runs.
\<close>

theorem request_effects:
  assumes "handle_request os gw w req route server = Some (resp, w')" and "w' \<noteq> w"
    and "NUL \<notin> set (rq_target req)"
  shows "\<exists>r. route = Some r \<and>
    (runs_script req r server \<and> w' = gw_files gw (execute_launch os w req r) w \<or>
     passes_gates req r server \<and>
       (rq_method req = ''POST'' \<and> post_writes os w req r w' \<or>
        rq_method req = ''DELETE'' \<and> delete_removes os w req r w'))"
proof -
  obtain r where r: "route = Some r"
    using assms(1,2) by (cases route) (auto simp: handle_request_def)
  note h = assms(1) [unfolded r]
  consider "runs_script req r server" | "passes_gates req r server"
    using handle_request_blocked [OF _ _ h] assms(2) by blast
  then show ?thesis
  proof cases
    case 1
    with handle_request_script [OF 1 h assms(2)] r show ?thesis by blast
  next
    case g: 2
    then have m: "handle_method os w req r server = (resp, w')"
      using h handle_request_gates [OF g, of os gw w] by simp
    then consider "rq_method req = ''POST''" "handle_post os w req r = (resp, w')"
      | "rq_method req = ''DELETE''" "handle_delete os w req r server = (resp, w')"
      using assms(2) by (auto simp: handle_method_def split: if_splits)
    then show ?thesis
    proof cases
      case 1
      with handle_post_effect [OF 1(2) assms(2)] r g show ?thesis by (simp add: post_writes_def)
    next
      case 2
      have "delete_removes os w req r w'"
        using handle_delete_effect [OF 2(2) assms(2)] request_path_inside [OF assms(3), of r]
        unfolding delete_removes_def by fastforce
      with 2 r g show ?thesis by blast
    qed
  qed
qed

text \<open>A file system with one file, counting how often it was changed.\<close>

definition counting_sys :: "string \<Rightarrow> nat sys" where
  "counting_sys p =
     \<lparr>sys_stat = (\<lambda>_ q. if q = p then Some False else None), sys_exists = (\<lambda>_ q. q = p),
      sys_readable = (\<lambda>_ q. q = p), sys_writable = (\<lambda>_ q. q = p),
      sys_read_file = (\<lambda>_ q. if q = p then Some ''x'' else None), sys_list_dir = (\<lambda>_ _. None),
      sys_write_file = (\<lambda>w q b. if q = p then Some (w + length b) else None),
      sys_append_file = (\<lambda>w q b. if q = p then Some (w + length b) else None),
      sys_unlink = (\<lambda>w q. if q = p then Some (w + 1) else None),
      sys_stale_isdir = (\<lambda>_ _. False), sys_realpath = (\<lambda>_ _. None)\<rparr>"

definition delete_request :: request where
  "delete_request = new_request\<lparr>rq_method := ''DELETE'', rq_target := ''/a/../b''\<rparr>"

lemma delete_sample:
  "handle_request (counting_sys ''files/b'') silent_gateway 0 delete_request (Some new_route) new_server =
     Some (success_200 ''<html><body><h1>200 OK</h1><p>File deleted: /b</p></body></html>'' ''text/html'', 1)"
  by code_simp

theorem request_effects_witness:
  "\<exists>r. Some new_route = Some r \<and>
    (runs_script delete_request r new_server \<and>
       (1 :: nat) = gw_files silent_gateway (execute_launch (counting_sys ''files/b'') 0 delete_request r) 0 \<or>
     passes_gates delete_request r new_server \<and>
       (rq_method delete_request = ''POST'' \<and> post_writes (counting_sys ''files/b'') 0 delete_request r 1 \<or>
        rq_method delete_request = ''DELETE'' \<and> delete_removes (counting_sys ''files/b'') 0 delete_request r 1))"
  by (rule request_effects [OF delete_sample]) (simp_all add: delete_request_def)

end
