(* ===== verification/HandlerWire.thy ===== *)
theory HandlerWire
  imports HandlerProps
begin

text \<open>
  What the request handlers of \<open>src/src/HTTPHandler.cpp\<close> put on the wire and store: responses that
  announce the length of their body, \<open>HEAD\<close> against \<open>GET\<close>, the two readings of a CGI script's
  output, uploads, and the request that gets a script's source instead of running it.
\<close>

section \<open>Lengths\<close>

lemma get_framed: "framed (handle_get os w req route server)"
  by (simp add: handle_get_def serve_file_def generate_autoindex_def factories_framed Let_def
      split: option.split bool.split)

lemma post_framed: "framed (fst (handle_post os w req route))"
  by (simp add: handle_post_def factories_framed Let_def split: option.split prod.split)

lemma delete_framed: "framed (fst (handle_delete os w req route server))"
  by (simp add: handle_delete_def factories_framed Let_def split: option.split bool.split)

lemma cgi_header_ok:
  "response_ok (snd (snd st)) \<Longrightarrow> response_ok (snd (snd (cgi_header line st)))"
  by (cases st) (auto simp: cgi_header_def Let_def response_ok_steps split: option.split)

lemma cgi_response_loop_ok:
  "response_ok (snd (snd st)) \<Longrightarrow> response_ok (snd (snd (cgi_response_loop s st)))"
proof (induction s st rule: cgi_response_loop.induct)
  case (1 s st)
  show ?case
  proof (cases "s = []")
    case True
    with 1 show ?thesis by (simp add: cgi_response_loop.simps [of "[]"])
  next
    case False
    obtain line rest where l: "cgi_line s = (line, rest)" by (cases "cgi_line s")
    have "response_ok (snd (snd (cgi_response_loop rest (cgi_header line st))))"
      by (rule "1.IH" [OF False l [symmetric] refl]) (rule cgi_header_ok [OF "1.prems"])
    with False l show ?thesis by (simp add: cgi_response_loop.simps [of s])
  qed
qed

lemma cgi_framed: "framed (parse_cgi_response os w raw server)"
proof -
  have "response_ok (snd (snd (cgi_response_loop s (200, ''OK'', set_status 200 ''OK'' new_response))))" for s
    by (rule cgi_response_loop_ok) (simp add: response_ok_steps)
  then show ?thesis
    by (auto simp: parse_cgi_response_def factories_framed
        intro!: framed_set_body split: option.split prod.split)
       (metis snd_conv)+
qed

text \<open>
  C22. Every response that \<open>handle_request\<close> builds says how long it is: whatever the request, the
  route, the files and the output of a script it ran do, its response to a method other than \<open>HEAD\<close>
  has a \<open>Content-Length\<close> field that is the number of bytes of its body, and its header fields are
  an ordered map. (Script output that the event loop streams is not built here: its head is sent
  before the body is known, without a length, and the close of the connection ends it.)
\<close>

theorem responses_framed:
  assumes "handle_request os gw w req route server = Some (resp, w')" and "rq_method req \<noteq> ''HEAD''"
  shows "framed resp"
proof -
  have "framed (fst (handle_method os w req r server))" for r
    using assms(2)
    by (simp add: handle_method_def get_framed post_framed delete_framed factories_framed)
  moreover have "framed resp" if "handle_method os w req r server = (resp, w')" for r
    using that calculation [of r] by (metis fst_conv)
  ultimately show ?thesis
    using assms(1)
    by (auto simp: handle_request_def factories_framed cgi_framed split: option.splits if_splits)
qed

theorem responses_framed_witness:
  "framed (success_200 ''<html><body><h1>200 OK</h1><p>File deleted: /b</p></body></html>'' ''text/html'')"
  by (rule responses_framed [OF delete_sample]) (simp add: delete_request_def)

section \<open>HEAD\<close>

text \<open>
  C31. \<open>HEAD\<close> is \<open>GET\<close> without the body: where both methods pass the gates of a route, the bytes sent
  for \<open>HEAD\<close> are the head of the response to the same request with \<open>GET\<close>, with the same
  \<open>Content-Length\<close>, and nothing behind it; nothing is changed.
\<close>

theorem head_is_get_without_body:
  assumes "passes_gates (req\<lparr>rq_method := ''GET''\<rparr>) route server"
    and "method_allowed route ''HEAD''"
  shows "\<exists>get. handle_request os gw w (req\<lparr>rq_method := ''GET''\<rparr>) (Some route) server = Some (get, w) \<and>
    handle_request os gw w (req\<lparr>rq_method := ''HEAD''\<rparr>) (Some route) server = Some (clear_body get, w) \<and>
    to_string (clear_body get) = header_to_string get"
proof -
  have r: "rq_headers (req\<lparr>rq_method := m\<rparr>) = rq_headers req"
    "rq_target (req\<lparr>rq_method := m\<rparr>) = rq_target req" for m by simp_all
  have h: "passes_gates (req\<lparr>rq_method := ''HEAD''\<rparr>) route server"
    using assms by (simp add: passes_gates_def body_refused_def get_header_value_def)
  have g: "handle_get os w (req\<lparr>rq_method := m\<rparr>) route server = handle_get os w req route server" for m
    by (simp only: handle_get_def request_path_def r)
  have "to_string (clear_body x) = header_to_string x" for x
    by (simp add: to_string_def build_response_def header_to_string_def response_simps)
  then show ?thesis
    by (simp add: handle_request_gates [OF assms(1)] handle_request_gates [OF h] handle_method_def g)
qed

theorem head_is_get_without_body_witness:
  "\<exists>get. handle_request (counting_sys ''files/b'') silent_gateway 7
           (delete_request\<lparr>rq_method := ''GET''\<rparr>) (Some new_route) new_server = Some (get, 7) \<and>
    handle_request (counting_sys ''files/b'') silent_gateway 7
           (delete_request\<lparr>rq_method := ''HEAD''\<rparr>) (Some new_route) new_server = Some (clear_body get, 7) \<and>
    to_string (clear_body get) = header_to_string get"
  by (rule head_is_get_without_body) code_simp+

section \<open>CGI output\<close>

text \<open>The two copies of the header loop agree: the line cut out at a position is the next line of
  the rest, and the two sequences of tests on it do the same.\<close>

lemma headers_turn_header:
  assumes "(if substr s pos (eol - pos) \<noteq> [] \<and> last (substr s pos (eol - pos)) = CR
     then butlast (substr s pos (eol - pos)) else substr s pos (eol - pos)) = line"
  shows "headers_turn s pos eol st = cgi_header line st"
proof -
  obtain c m r where st: "st = (c, m, r)" by (cases st)
  show ?thesis
    unfolding headers_turn_def cgi_header_def st Let_def assms prod.case
    by (simp split: option.split)
qed

lemma cgi_line_drop:
  assumes "pos < length s"
  shows "cgi_line (drop pos s) =
    (let line = substr s pos (headers_eol s pos - pos)
     in (if line \<noteq> [] \<and> last line = CR then butlast line else line), drop (headers_eol s pos + 1) s)"
  using assms
  by (cases "find_char LF (drop pos s)")
     (simp_all add: cgi_line_def headers_eol_def find_char_from_def substr_def Let_def add.commute)

lemma cgi_loops_equal: "cgi_headers_loop s pos st = cgi_response_loop (drop pos s) st"
proof (induction s pos st rule: cgi_headers_loop.induct)
  case (1 s pos st)
  show ?case
  proof (cases "pos < length s")
    case True
    let ?eol = "headers_eol s pos"
    obtain line where l: "cgi_line (drop pos s) = (line, drop (?eol + 1) s)"
      and t: "headers_turn s pos ?eol st = cgi_header line st"
      using cgi_line_drop [OF True] headers_turn_header [OF refl, of s pos ?eol st] by (simp add: Let_def)
    have "cgi_headers_loop s pos st = cgi_headers_loop s (?eol + 1) (headers_turn s pos ?eol st)"
      using True by (simp add: cgi_headers_loop.simps [of s pos] Let_def)
    also have "\<dots> = cgi_response_loop (drop (?eol + 1) s) (cgi_header line st)"
      unfolding t [symmetric] using True by (intro 1) simp_all
    also have "\<dots> = cgi_response_loop (drop pos s) st"
      using True l by (simp add: cgi_response_loop.simps [of "drop pos s"])
    finally show ?thesis .
  next
    case False
    then show ?thesis
      by (simp add: cgi_headers_loop.simps [of s pos] cgi_response_loop.simps [of "[]"])
  qed
qed

text \<open>The header fields that are not \<open>Content-Length\<close>.\<close>

definition other_fields :: "response \<Rightarrow> (string, string) std_map" where
  "other_fields r = filter (\<lambda>(k, v). k \<noteq> ''Content-Length'') (rs_headers r)"

lemma filter_map_put: "filter (\<lambda>(k', v). k' \<noteq> k) (map_put k v m) = filter (\<lambda>(k', v). k' \<noteq> k) m"
  by (induction m) auto

text \<open>
  C33. Streaming a script's output changes only the length field: when the output has a blank line of
  CRLFs, \<open>parse_cgi_response\<close> on all of it and \<open>parse_cgi_headers\<close> on the part before that line give
  the same status line and the same fields apart from \<open>Content-Length\<close>, and the body of the first
  is the part behind that line, which the second leaves to be sent as it arrives.
\<close>

theorem cgi_streaming_agrees:
  assumes "find_sub crlf2 raw = Some n"
  shows "rs_status_line (parse_cgi_response os w raw server) =
      rs_status_line (parse_cgi_headers (take n raw) server)
    \<and> other_fields (parse_cgi_response os w raw server) = other_fields (parse_cgi_headers (take n raw) server)
    \<and> take n raw @ crlf2 @ rs_body (parse_cgi_response os w raw server) = raw"
proof -
  obtain c m r where l: "cgi_headers_loop (take n raw) 0 (200, ''OK'', set_status 200 ''OK'' new_response) = (c, m, r)"
    by (metis prod_cases3)
  have p: "parse_cgi_response os w raw server = set_body (drop (n + 4) raw) r"
    using l by (simp add: parse_cgi_response_def assms cgi_loops_equal substr_0)
  have h: "parse_cgi_headers (take n raw) server = r"
    by (simp add: parse_cgi_headers_def l)
  have "take 4 (drop n raw) = crlf2" using find_sub_Some [OF assms] by (simp add: numeral_eq_Suc)
  moreover have "raw = take n raw @ take 4 (drop n raw) @ drop 4 (drop n raw)"
    by (simp only: append_take_drop_id)
  ultimately have "take n raw @ crlf2 @ drop (n + 4) raw = raw" by (simp add: add.commute)
  then show ?thesis
    by (simp add: p h response_simps other_fields_def filter_map_put)
qed

definition sample_output :: string where
  "sample_output = ''Status: 404 Gone'' @ crlf @ ''X-A: 1'' @ crlf2 @ ''body''"

theorem cgi_streaming_agrees_witness:
  "rs_status_line (parse_cgi_response no_files () sample_output new_server) =
      rs_status_line (parse_cgi_headers (take 24 sample_output) new_server)
    \<and> other_fields (parse_cgi_response no_files () sample_output new_server) =
      other_fields (parse_cgi_headers (take 24 sample_output) new_server)
    \<and> take 24 sample_output @ crlf2 @ rs_body (parse_cgi_response no_files () sample_output new_server)
      = sample_output"
  by (rule cgi_streaming_agrees) code_simp

section \<open>Uploads\<close>

lemma find_sub_from_append:
  "find_sub pat s = Some i \<Longrightarrow> find_sub_from pat (a @ s @ b) (length a) = Some (i + length a)"
  by (simp add: find_sub_from_def find_sub_append)

lemma substr_mid: "substr (a @ b @ c) (length a) (length b + length a - length a) = b"
  by (simp add: substr_def)

text \<open>
  A multipart body as clients send it: some header text with the file name field, the end of that
  part's headers, the data, and the closing boundary.
\<close>

definition multipart :: "string \<Rightarrow> string \<Rightarrow> string \<Rightarrow> string \<Rightarrow> string \<Rightarrow> string" where
  "multipart boundary before filename after data =
     before @ FILENAME_PREFIX @ filename @ [CHR 0x22] @ after @ crlf2 @ data @
     crlf @ ''--'' @ boundary @ ''--'' @ crlf"

definition multipart_type :: "string \<Rightarrow> string" where
  "multipart_type boundary = ''multipart/form-data; boundary='' @ boundary"

lemma multipart_type_parts:
  "contains (multipart_type b) ''multipart/form-data''"
  "find_sub BOUNDARY_PREFIX (multipart_type b) = Some 21"
  "drop (21 + length BOUNDARY_PREFIX) (multipart_type b) = b"
  by (simp_all add: contains_def multipart_type_def)

lemma multipart_file_multipart:
  assumes name: "find_sub FILENAME_PREFIX (before @ FILENAME_PREFIX) = Some (length before)"
    and quote: "CHR 0x22 \<notin> set filename"
    and after: "find_sub crlf2 (CHR 0x22 # after @ crlf2) = Some (length after + 1)"
    and bytes: "find_sub (crlf @ ''--'' @ boundary) (data @ crlf @ ''--'' @ boundary) = Some (length data)"
  shows "multipart_file (multipart_type boundary) (multipart boundary before filename after data) =
    Some (filename, data)"
proof -
  let ?b = "multipart boundary before filename after data"
  let ?pre = "before @ FILENAME_PREFIX" and ?tail = "data @ crlf @ ''--'' @ boundary @ ''--'' @ crlf"
  have b1: "?b = ?pre @ filename @ [CHR 0x22] @ after @ crlf2 @ ?tail" by (simp add: multipart_def)
  have f1: "find_sub FILENAME_PREFIX ?b = Some (length before)"
    unfolding b1 using name by (rule find_sub_append)
  have f2: "find_char_from CHR 0x22 ?b (length before + length FILENAME_PREFIX) =
      Some (length ?pre + length filename)"
    using quote unfolding b1 find_char_from_def by (simp add: find_char_append)
  have b2: "?b = (?pre @ filename) @ (CHR 0x22 # after @ crlf2) @ ?tail" by (simp add: b1)
  have f3: "find_sub_from crlf2 ?b (length ?pre + length filename) =
      Some (length after + 1 + length (?pre @ filename))"
    unfolding b2 length_append [symmetric, of ?pre filename] by (rule find_sub_from_append) (rule after)
  let ?head = "?pre @ filename @ [CHR 0x22] @ after @ crlf2"
  have b3: "?b = ?head @ (data @ crlf @ ''--'' @ boundary) @ (''--'' @ crlf)" by (simp add: b1)
  have b4: "?b = ?head @ data @ (crlf @ ''--'' @ boundary @ ''--'' @ crlf)" by (simp add: b1)
  have h: "length ?head = length after + 1 + length (?pre @ filename) + 4" by simp
  have f4: "find_sub_from (crlf @ ''--'' @ boundary) ?b (length ?head) = Some (length data + length ?head)"
    unfolding b3 by (rule find_sub_from_append) (rule bytes)
  have s1: "substr ?b (length before + length FILENAME_PREFIX)
      (length ?pre + length filename - (length before + length FILENAME_PREFIX)) = filename"
    unfolding b1 substr_def by simp
  have s2: "substr ?b (length ?head) (length data + length ?head - length ?head) = data"
    unfolding b4 by (rule substr_mid)
  show ?thesis
    unfolding multipart_file_def multipart_type_parts(2) option.case Let_def multipart_type_parts(3)
      f1 f2 f3 h [symmetric]
    using f4 s1 s2 by simp
qed

text \<open>
  C32. An upload is stored byte for byte: for a multipart request whose boundary does not occur in
  the data, \<open>handle_post\<close> writes exactly the bytes of the file part, to the upload directory, a slash
  and the file name of the request, and answers 201 where the write succeeds. The file name is used
  as it is, so one with dot-dot components names a file outside the upload directory.
\<close>

theorem upload_stores_file:
  assumes "find_sub FILENAME_PREFIX (before @ FILENAME_PREFIX) = Some (length before)"
    and "CHR 0x22 \<notin> set filename"
    and "find_sub crlf2 (CHR 0x22 # after @ crlf2) = Some (length after + 1)"
    and "find_sub (crlf @ ''--'' @ boundary) (data @ crlf @ ''--'' @ boundary) = Some (length data)"
    and "get_header_value req ''content-type'' = multipart_type boundary"
    and "rq_body req = multipart boundary before filename after data"
    and "sys_write_file os w (c_str (uploads_directory route @ ''/'' @ filename)) data = Some w'"
  shows "handle_post os w req route =
    (success_201 (''<html><body><h1>201 Created</h1><p>File uploaded: '' @ filename
       @ ''</p></body></html>'') ''text/html'', w')"
  using multipart_file_multipart [OF assms(1-4)] assms(5-7)
  by (simp add: handle_post_def Let_def multipart_type_parts(1) uploads_directory_def)

definition upload_request :: request where
  "upload_request = new_request\<lparr>rq_method := ''POST'', rq_target := ''/up'',
     rq_headers := [(''content-type'', multipart_type ''XX'')],
     rq_body := multipart ''XX'' (''--XX'' @ crlf @ ''Content-Disposition: form-data; '')
       ''../../tmp/x'' (crlf @ ''Content-Type: text/plain'') (''a'' @ crlf @ ''b'')\<rparr>"

theorem upload_stores_file_witness:
  "handle_post (counting_sys ''uploads/../../tmp/x'') 0 upload_request new_route =
    (success_201 (''<html><body><h1>201 Created</h1><p>File uploaded: '' @ ''../../tmp/x''
       @ ''</p></body></html>'') ''text/html'', 4)"
  by (rule upload_stores_file [where before = "''--XX'' @ crlf @ ''Content-Disposition: form-data; ''"
        and after = "crlf @ ''Content-Type: text/plain''" and boundary = "''XX''"
        and data = "''a'' @ crlf @ ''b''"]) code_simp+

section \<open>A script's source\<close>

lemma c_str_stop: "NUL \<notin> set p \<Longrightarrow> c_str (p @ NUL # q) = p"
  unfolding c_str_def by (subst takeWhile_append2) auto

lemma sanitize_one: "proper_segment s \<Longrightarrow> sanitize_path (CHR ''/'' # s) = CHR ''/'' # s"
  by (simp add: sanitize_path_def sanitize_scan_components foldl_walk components_segment(2)
      proper_segment_def process_path_segment_def)

text \<open>
  C37. A NUL byte gets a script's source: on a route that runs files with some extension as scripts,
  a \<open>GET\<close> for such a file with a NUL byte behind its name is not recognised as a script, because the
  extension is compared with the whole target; the file calls stop at the NUL byte, so the response
  is the script's source with status 200.
\<close>

theorem nul_byte_discloses_script:
  assumes "proper_segment s" and "NUL \<notin> set (root_directory route @ s)" and "CHR ''?'' \<notin> set s"
    and "rc_path route = ''/''" and "rc_cgi_extension route \<noteq> []" and "NUL \<notin> set (rc_cgi_extension route)"
    and "rc_redirect_code route = 0" and "method_allowed route ''GET''"
    and "\<not> body_refused req route server"
    and "rq_method req = ''GET''" and "rq_target req = CHR ''/'' # s @ [NUL]"
    and "sys_stat os w (root_directory route @ CHR ''/'' # s) = Some False"
    and "sys_exists os w (root_directory route @ CHR ''/'' # s)"
    and "sys_readable os w (root_directory route @ CHR ''/'' # s)"
    and "sys_read_file os w (root_directory route @ CHR ''/'' # s) = Some script"
  shows "\<exists>mime. handle_request os gw w req (Some route) server = Some (success_200 script mime, w)"
proof -
  let ?f = "root_directory route @ CHR ''/'' # s @ [NUL]"
  have q: "strip_query_string (rq_target req) = CHR ''/'' # s @ [NUL]"
  proof -
    have "find_char CHR ''?'' (CHR ''/'' # s @ [NUL]) = None"
      using assms(3) by (simp add: find_char_None)
    then show ?thesis by (simp add: strip_query_string_def assms(11))
  qed
  have "\<not> suffix (rc_cgi_extension route) (CHR ''/'' # s @ [NUL])"
    using assms(5,6) by (cases "rc_cgi_extension route" rule: rev_cases) (auto simp: suffix_def)
  then have "passes_gates req route server"
    using assms(7-10) by (simp add: passes_gates_def cgi_route_def ends_with_suffix q)
  moreover have "proper_segment (s @ [NUL])"
    using assms(1) by (auto simp: proper_segment_def append_eq_Cons_conv)
  then have p: "request_path req route = CHR ''/'' # s @ [NUL]"
    by (simp add: request_path_def q assms(4) strip_route_prefix_def sanitize_one)
  have c: "c_str ?f = root_directory route @ CHR ''/'' # s"
    using c_str_stop [of "root_directory route @ CHR ''/'' # s" "[]"] assms(2) by simp
  have "handle_get os w req route server = success_200 script (get_mime_type ?f)"
    using assms(12-15) by (simp add: handle_get_def p c serve_file_def)
  ultimately show ?thesis
    using assms(10)
    by (intro exI [of _ "get_mime_type ?f"]) (simp add: handle_request_gates handle_method_def)
qed

definition php_route :: route_config where
  "php_route = new_route\<lparr>rc_cgi_extension := ''.php''\<rparr>"

definition nul_request :: request where
  "nul_request = new_request\<lparr>rq_method := ''GET'', rq_target := ''/a.php'' @ [NUL]\<rparr>"

theorem nul_byte_discloses_script_witness:
  "\<exists>mime. handle_request (counting_sys ''files/a.php'') silent_gateway 0 nul_request (Some php_route) new_server
     = Some (success_200 ''x'' mime, 0)"
  by (rule nul_byte_discloses_script [where s = "''a.php''"]) code_simp+

end
