(* ===== verification/Connection.thy ===== *)
theory Connection
  imports RequestIncremental
begin

text \<open>
  One client connection, \<open>src/src/Client.cpp\<close> and \<open>src/inc/Client.hpp\<close>: the members of the class
  as a record and its operations, with the two byte queues of a running script (what still has to be
  written to it and what still has to be sent to the client) and the decoder that forwards a chunked
  body to the script. Descriptors are \<open>int\<close>s, \<open>-1\<close> for none; an operation that closes descriptors or
  waits for a process returns them beside the new object.
\<close>

section \<open>State\<close>

datatype chunk_dec_state =
    CHUNK_DEC_SIZE | CHUNK_DEC_DATA | CHUNK_DEC_DATA_CRLF | CHUNK_DEC_TRAILERS | CHUNK_DEC_DONE

record client =
  cl_fd :: int
  cl_buffer :: string
  cl_response :: string
  cl_last_activity :: int
  cl_response_offset :: nat
  cl_server_index :: nat
  cl_request :: request
  cl_request_started :: bool
  cl_cgi_pid :: int
  cl_cgi_stdin_fd :: int
  cl_cgi_stdout_fd :: int
  cl_cgi_output :: string
  cl_cgi_active :: bool
  cl_stdin_pending :: string
  cl_stdin_offset :: nat
  cl_stdin_eof :: bool
  cl_body_forwarded :: size_t
  cl_body_length :: size_t
  cl_headers_sent :: bool
  cl_chunked :: bool
  cl_chunk_state :: chunk_dec_state
  cl_chunk_remaining :: size_t
  cl_chunk_buf :: string
  cl_send_pending :: string
  cl_send_offset :: nat

definition new_client :: "int \<Rightarrow> nat \<Rightarrow> int \<Rightarrow> client" where
  "new_client fd server_index now =
     \<lparr>cl_fd = fd, cl_buffer = [], cl_response = [], cl_last_activity = now, cl_response_offset = 0,
      cl_server_index = server_index, cl_request = new_request, cl_request_started = False,
      cl_cgi_pid = - 1, cl_cgi_stdin_fd = - 1, cl_cgi_stdout_fd = - 1, cl_cgi_output = [],
      cl_cgi_active = False, cl_stdin_pending = [], cl_stdin_offset = 0, cl_stdin_eof = False,
      cl_body_forwarded = 0, cl_body_length = 0, cl_headers_sent = False, cl_chunked = False,
      cl_chunk_state = CHUNK_DEC_SIZE, cl_chunk_remaining = 0, cl_chunk_buf = [],
      cl_send_pending = [], cl_send_offset = 0\<rparr>"

section \<open>Request and response buffers\<close>

definition update_activity :: "int \<Rightarrow> client \<Rightarrow> client" where
  "update_activity now c = c\<lparr>cl_last_activity := now\<rparr>"

definition advance_response_offset :: "nat \<Rightarrow> client \<Rightarrow> client" where
  "advance_response_offset n c = c\<lparr>cl_response_offset := cl_response_offset c + n\<rparr>"

definition append_to_buffer :: "string \<Rightarrow> client \<Rightarrow> client" where
  "append_to_buffer data c = c\<lparr>cl_buffer := cl_buffer c @ data\<rparr>"

definition has_complete_header :: "client \<Rightarrow> bool" where
  "has_complete_header c \<longleftrightarrow> contains (cl_buffer c) crlf2"

definition clear_buffer :: "client \<Rightarrow> client" where
  "clear_buffer c = c\<lparr>cl_buffer := [], cl_request := reset (cl_request c), cl_request_started := False\<rparr>"

definition clear_raw_buffer :: "client \<Rightarrow> client" where
  "clear_raw_buffer c = c\<lparr>cl_buffer := []\<rparr>"

definition set_response :: "string \<Rightarrow> client \<Rightarrow> client" where
  "set_response s c = c\<lparr>cl_response := s, cl_response_offset := 0\<rparr>"

definition clear_response :: "client \<Rightarrow> client" where
  "clear_response c = c\<lparr>cl_response := [], cl_response_offset := 0\<rparr>"

section \<open>A running script\<close>

definition start_cgi :: "int \<Rightarrow> int \<Rightarrow> int \<Rightarrow> client \<Rightarrow> client" where
  "start_cgi pid stdin_fd stdout_fd c =
     c\<lparr>cl_cgi_pid := pid, cl_cgi_stdin_fd := stdin_fd, cl_cgi_stdout_fd := stdout_fd,
       cl_cgi_active := True, cl_cgi_output := [], cl_stdin_pending := [], cl_stdin_offset := 0,
       cl_stdin_eof := False, cl_body_forwarded := 0, cl_body_length := 0, cl_headers_sent := False,
       cl_chunked := False, cl_chunk_state := CHUNK_DEC_SIZE, cl_chunk_remaining := 0,
       cl_chunk_buf := [], cl_send_pending := [], cl_send_offset := 0\<rparr>"

definition close_cgi_stdin :: "client \<Rightarrow> int list \<times> client" where
  "close_cgi_stdin c =
     (if cl_cgi_stdin_fd c \<noteq> - 1 then ([cl_cgi_stdin_fd c], c\<lparr>cl_cgi_stdin_fd := - 1\<rparr>) else ([], c))"

text \<open>\<open>finish_cgi\<close> returns the descriptors it closes and the process it waits for.\<close>

definition finish_cgi :: "client \<Rightarrow> int list \<times> int list \<times> client" where
  "finish_cgi c =
     (let (out_fds, c) = (if cl_cgi_stdout_fd c \<noteq> - 1
                          then ([cl_cgi_stdout_fd c], c\<lparr>cl_cgi_stdout_fd := - 1\<rparr>) else ([], c));
          (in_fds, c) = close_cgi_stdin c;
          (pids, c) = (if cl_cgi_pid c \<noteq> - 1 then ([cl_cgi_pid c], c\<lparr>cl_cgi_pid := - 1\<rparr>) else ([], c))
      in (out_fds @ in_fds, pids, c\<lparr>cl_cgi_active := False\<rparr>))"

definition append_cgi_output :: "string \<Rightarrow> client \<Rightarrow> client" where
  "append_cgi_output data c = c\<lparr>cl_cgi_output := cl_cgi_output c @ data\<rparr>"

definition add_cgi_body_bytes_forwarded :: "nat \<Rightarrow> client \<Rightarrow> client" where
  "add_cgi_body_bytes_forwarded n c = c\<lparr>cl_body_forwarded := cl_body_forwarded c + word_of_nat n\<rparr>"

section \<open>Byte queues\<close>

text \<open>The compaction of \<open>consume_cgi_stdin_pending\<close> and \<open>consume_cgi_send_pending\<close>.\<close>

abbreviation COMPACT_THRESHOLD :: nat where "COMPACT_THRESHOLD \<equiv> 1048576"

definition append_cgi_stdin_pending :: "string \<Rightarrow> client \<Rightarrow> client" where
  "append_cgi_stdin_pending data c = c\<lparr>cl_stdin_pending := cl_stdin_pending c @ data\<rparr>"

definition cgi_stdin_pending_size :: "client \<Rightarrow> nat" where
  "cgi_stdin_pending_size c =
     (if length (cl_stdin_pending c) \<le> cl_stdin_offset c then 0
      else length (cl_stdin_pending c) - cl_stdin_offset c)"

text \<open>The bytes from \<open>get_cgi_stdin_pending_ptr\<close> over that size.\<close>

definition cgi_stdin_queue :: "client \<Rightarrow> string" where
  "cgi_stdin_queue c = substr (cl_stdin_pending c) (cl_stdin_offset c) (cgi_stdin_pending_size c)"

definition is_cgi_stdin_pending_empty :: "client \<Rightarrow> bool" where
  "is_cgi_stdin_pending_empty c \<longleftrightarrow> cgi_stdin_pending_size c = 0"

definition consume_cgi_stdin_pending :: "nat \<Rightarrow> client \<Rightarrow> client" where
  "consume_cgi_stdin_pending n c =
     (let c = c\<lparr>cl_stdin_offset := cl_stdin_offset c + n\<rparr> in
      if COMPACT_THRESHOLD \<le> cl_stdin_offset c then
        (if length (cl_stdin_pending c) \<le> cl_stdin_offset c then c\<lparr>cl_stdin_pending := []\<rparr>
         else c\<lparr>cl_stdin_pending := drop (cl_stdin_offset c) (cl_stdin_pending c)\<rparr>)\<lparr>cl_stdin_offset := 0\<rparr>
      else c)"

definition append_cgi_send_pending :: "string \<Rightarrow> client \<Rightarrow> client" where
  "append_cgi_send_pending data c = c\<lparr>cl_send_pending := cl_send_pending c @ data\<rparr>"

definition cgi_send_pending_size :: "client \<Rightarrow> nat" where
  "cgi_send_pending_size c =
     (if length (cl_send_pending c) \<le> cl_send_offset c then 0
      else length (cl_send_pending c) - cl_send_offset c)"

definition cgi_send_queue :: "client \<Rightarrow> string" where
  "cgi_send_queue c = substr (cl_send_pending c) (cl_send_offset c) (cgi_send_pending_size c)"

definition consume_cgi_send_pending :: "nat \<Rightarrow> client \<Rightarrow> client" where
  "consume_cgi_send_pending n c =
     (let c = c\<lparr>cl_send_offset := cl_send_offset c + n\<rparr> in
      if COMPACT_THRESHOLD \<le> cl_send_offset c then
        (if length (cl_send_pending c) \<le> cl_send_offset c then c\<lparr>cl_send_pending := []\<rparr>
         else c\<lparr>cl_send_pending := drop (cl_send_offset c) (cl_send_pending c)\<rparr>)\<lparr>cl_send_offset := 0\<rparr>
      else c)"

section \<open>Chunked bodies for a script\<close>

definition init_cgi_chunk_decoder :: "int \<Rightarrow> size_t \<Rightarrow> client \<Rightarrow> client" where
  "init_cgi_chunk_decoder st remaining c =
     c\<lparr>cl_chunk_state := (if st = 1 then CHUNK_DEC_DATA
                         else if st = 2 then CHUNK_DEC_DATA_CRLF
                         else if st = 3 then CHUNK_DEC_TRAILERS
                         else CHUNK_DEC_SIZE),
       cl_chunk_remaining := remaining, cl_chunk_buf := []\<rparr>"

text \<open>The digits of a size line, in \<open>size_t\<close> arithmetic; \<open>None\<close> at the first that is not hexadecimal.\<close>

fun chunk_line_size :: "size_t \<Rightarrow> string \<Rightarrow> size_t option" where
  "chunk_line_size n [] = Some n"
| "chunk_line_size n (c # line) =
     (case hex_digit c of
        Some d \<Rightarrow> chunk_line_size (n * 16 + word_of_nat d) line
      | None \<Rightarrow> None)"

text \<open>The loop of \<open>decode_chunked_for_cgi\<close>: its result, the object, \<open>decoded\<close> and \<open>eof\<close>.\<close>

definition decode_measure :: "client \<Rightarrow> nat" where
  "decode_measure c = 2 * length (cl_chunk_buf c) + (if cl_chunk_state c = CHUNK_DEC_DATA then 1 else 0)"

function decode_loop :: "client \<Rightarrow> string \<Rightarrow> bool \<times> client \<times> string \<times> bool" where
  "decode_loop c decoded =
     (if cl_chunk_buf c = [] then (True, c, decoded, False)
      else case cl_chunk_state c of
        CHUNK_DEC_SIZE \<Rightarrow>
          (case split_crlf (cl_chunk_buf c) of
             None \<Rightarrow> (True, c, decoded, False)
           | Some (line, rest) \<Rightarrow>
               let c = c\<lparr>cl_chunk_buf := rest\<rparr>;
                   line = (case find_char CHR '';'' line of
                             Some semi \<Rightarrow> substr line 0 semi | None \<Rightarrow> line)
               in case chunk_line_size 0 line of
                    None \<Rightarrow> (False, c, decoded, False)
                  | Some n \<Rightarrow>
                      decode_loop (c\<lparr>cl_chunk_remaining := n,
                                     cl_chunk_state := (if n = 0 then CHUNK_DEC_TRAILERS
                                                        else CHUNK_DEC_DATA)\<rparr>) decoded)
      | CHUNK_DEC_DATA \<Rightarrow>
          let avail = (if length (cl_chunk_buf c) < unat (cl_chunk_remaining c)
                       then length (cl_chunk_buf c) else unat (cl_chunk_remaining c));
              decoded = decoded @ substr (cl_chunk_buf c) 0 avail;
              remaining = cl_chunk_remaining c - word_of_nat avail;
              c = c\<lparr>cl_chunk_buf := drop avail (cl_chunk_buf c), cl_chunk_remaining := remaining\<rparr>
          in if remaining = 0 then decode_loop (c\<lparr>cl_chunk_state := CHUNK_DEC_DATA_CRLF\<rparr>) decoded
             else (True, c, decoded, False)
      | CHUNK_DEC_DATA_CRLF \<Rightarrow>
          if length (cl_chunk_buf c) < 2 then (True, c, decoded, False)
          else if cl_chunk_buf c ! 0 \<noteq> CR \<or> cl_chunk_buf c ! 1 \<noteq> LF then (False, c, decoded, False)
          else decode_loop (c\<lparr>cl_chunk_buf := drop 2 (cl_chunk_buf c), cl_chunk_state := CHUNK_DEC_SIZE\<rparr>)
                 decoded
      | CHUNK_DEC_TRAILERS \<Rightarrow>
          (case split_crlf (cl_chunk_buf c) of
             None \<Rightarrow> (True, c, decoded, False)
           | Some (line, rest) \<Rightarrow>
               let c = c\<lparr>cl_chunk_buf := rest\<rparr> in
               if line = [] then (True, c\<lparr>cl_chunk_state := CHUNK_DEC_DONE\<rparr>, decoded, True)
               else decode_loop c decoded)
      | CHUNK_DEC_DONE \<Rightarrow> (True, c, decoded, True))"
  by pat_completeness auto
termination
  by (relation "measure (\<lambda>(c, decoded). decode_measure c)")
     (auto simp: decode_measure_def dest!: split_crlf_length split: if_splits)

declare decode_loop.simps [simp del]

definition decode_chunked_for_cgi :: "string \<Rightarrow> client \<Rightarrow> bool \<times> client \<times> string \<times> bool" where
  "decode_chunked_for_cgi data c = decode_loop (c\<lparr>cl_chunk_buf := cl_chunk_buf c @ data\<rparr>) []"

end
