(* ===== verification/ByteQueue.thy ===== *)
theory ByteQueue
  imports Prelude
begin

text \<open>
  The contract of a queue of bytes between two descriptors: what is appended comes out behind what
  is already queued, and consuming removes from the front. The client object keeps two of them; the
  locale proves once that no byte is lost, repeated or reordered by any use of such a queue.
\<close>

datatype 'b queue_op = Push "'b list" | Pop nat

text \<open>Any sequence of operations, with the bytes handed out. A \<open>Pop\<close> takes at most what is there,
  as \<open>write\<close> and \<open>send\<close> do with the buffer they are given.\<close>

fun queue_run :: "('b list \<Rightarrow> 's \<Rightarrow> 's) \<Rightarrow> (nat \<Rightarrow> 's \<Rightarrow> 's) \<Rightarrow> ('s \<Rightarrow> 'b list) \<Rightarrow> 'b queue_op list \<Rightarrow> 's
    \<Rightarrow> 'b list \<times> 's" where
  "queue_run push pop content [] s = ([], s)"
| "queue_run push pop content (Push d # ops) s = queue_run push pop content ops (push d s)"
| "queue_run push pop content (Pop n # ops) s =
     (let k = min n (length (content s));
          (out, s') = queue_run push pop content ops (pop k s)
      in (take k (content s) @ out, s'))"

fun pushed :: "'b queue_op list \<Rightarrow> 'b list" where
  "pushed [] = []"
| "pushed (Push d # ops) = d @ pushed ops"
| "pushed (Pop n # ops) = pushed ops"

locale byte_queue =
  fixes push :: "'b list \<Rightarrow> 's \<Rightarrow> 's"
    and pop :: "nat \<Rightarrow> 's \<Rightarrow> 's"
    and content :: "'s \<Rightarrow> 'b list"
    and valid :: "'s \<Rightarrow> bool"
  assumes push_content: "valid s \<Longrightarrow> content (push d s) = content s @ d"
    and pop_content: "valid s \<Longrightarrow> n \<le> length (content s) \<Longrightarrow> content (pop n s) = drop n (content s)"
    and push_valid: "valid s \<Longrightarrow> valid (push d s)"
    and pop_valid: "valid s \<Longrightarrow> n \<le> length (content s) \<Longrightarrow> valid (pop n s)"
begin

lemma run_valid: "valid s \<Longrightarrow> queue_run push pop content ops s = (out, s') \<Longrightarrow> valid s'"
proof (induction ops arbitrary: s out)
  case (Cons op ops)
  show ?case
  proof (cases op)
    case (Push d)
    with Cons.IH [OF push_valid [OF Cons.prems(1)], of d out] Cons.prems(2) show ?thesis by simp
  next
    case (Pop n)
    have "valid (pop (min n (length (content s))) s)" using Cons.prems(1) by (simp add: pop_valid)
    from Cons.IH [OF this] Cons.prems(2) Pop show ?thesis by (auto simp: Let_def split: prod.splits)
  qed
qed simp

lemma fifo:
  "valid s \<Longrightarrow> queue_run push pop content ops s = (out, s') \<Longrightarrow>
     out @ content s' = content s @ pushed ops"
proof (induction ops arbitrary: s out)
  case (Cons op ops)
  show ?case
  proof (cases op)
    case (Push d)
    with Cons.prems Cons.IH [of "push d s" out] show ?thesis
      by (simp add: push_valid push_content)
  next
    case (Pop n)
    let ?k = "min n (length (content s))"
    obtain o' where r: "queue_run push pop content ops (pop ?k s) = (o', s')"
      and out: "out = take ?k (content s) @ o'"
      using Cons.prems(2) Pop by (auto simp: Let_def split: prod.splits)
    have "o' @ content s' = drop ?k (content s) @ pushed ops"
      using Cons.IH [OF _ r] Cons.prems(1) by (simp add: pop_valid pop_content)
    then show ?thesis by (simp add: out Pop flip: append.assoc)
  qed
qed simp

lemma drained:
  assumes "valid s" and "queue_run push pop content ops s = (out, s')" and "content s' = []"
  shows "out = content s @ pushed ops"
  using fifo [OF assms(1,2)] assms(3) by simp

end

end
