(* ===== verification/ConnectionProps.thy ===== *)
theory ConnectionProps
  imports Connection ByteQueue
begin

text \<open>
  What a connection guarantees (\<open>src/src/Client.cpp\<close>): its byte queues lose nothing, and the decoder
  that forwards a chunked body to a script does not depend on packet boundaries and forwards the
  bytes the request parser would have collected.
\<close>

section \<open>The byte queues\<close>

definition stdin_queue_ok :: "client \<Rightarrow> bool" where
  "stdin_queue_ok c \<longleftrightarrow> cl_stdin_offset c \<le> length (cl_stdin_pending c)"

definition send_queue_ok :: "client \<Rightarrow> bool" where
  "send_queue_ok c \<longleftrightarrow> cl_send_offset c \<le> length (cl_send_pending c)"

lemma stdin_queue_drop: "cgi_stdin_queue c = drop (cl_stdin_offset c) (cl_stdin_pending c)"
  by (simp add: cgi_stdin_queue_def cgi_stdin_pending_size_def substr_def)

lemma send_queue_drop: "cgi_send_queue c = drop (cl_send_offset c) (cl_send_pending c)"
  by (simp add: cgi_send_queue_def cgi_send_pending_size_def substr_def)

interpretation stdin_queue:
  byte_queue append_cgi_stdin_pending consume_cgi_stdin_pending cgi_stdin_queue stdin_queue_ok
  by unfold_locales
     (auto simp: stdin_queue_drop stdin_queue_ok_def append_cgi_stdin_pending_def
        consume_cgi_stdin_pending_def Let_def add.commute)

interpretation send_queue:
  byte_queue append_cgi_send_pending consume_cgi_send_pending cgi_send_queue send_queue_ok
  by unfold_locales
     (auto simp: send_queue_drop send_queue_ok_def append_cgi_send_pending_def
        consume_cgi_send_pending_def Let_def add.commute)

text \<open>
  C24. The queues to a script and to its client lose nothing: from a client object whose offsets are
  inside the buffers, whatever is appended and whatever amounts \<open>write\<close> or \<open>send\<close> take, the bytes
  handed out so far followed by the bytes still queued are the bytes appended, in order; the
  compaction at one megabyte is invisible.
\<close>

theorem queues_lose_nothing:
  assumes "stdin_queue_ok c" and "send_queue_ok c"
    and "queue_run append_cgi_stdin_pending consume_cgi_stdin_pending cgi_stdin_queue ops c = (out, c')"
    and "queue_run append_cgi_send_pending consume_cgi_send_pending cgi_send_queue ops' c = (out', c'')"
  shows "out @ cgi_stdin_queue c' = cgi_stdin_queue c @ pushed ops \<and> stdin_queue_ok c' \<and>
    out' @ cgi_send_queue c'' = cgi_send_queue c @ pushed ops' \<and> send_queue_ok c''"
  using stdin_queue.fifo [OF assms(1,3)] stdin_queue.run_valid [OF assms(1,3)]
    send_queue.fifo [OF assms(2,4)] send_queue.run_valid [OF assms(2,4)] by simp

theorem queues_lose_nothing_witness:
  "let c = start_cgi 9 5 6 (new_client 4 0 0);
       (out, c') = queue_run append_cgi_stdin_pending consume_cgi_stdin_pending cgi_stdin_queue
                     [Push ''abc'', Pop 2, Push ''d''] c;
       (out', c'') = queue_run append_cgi_send_pending consume_cgi_send_pending cgi_send_queue
                     [Push ''xy'', Pop 5] c
   in out @ cgi_stdin_queue c' = ''abcd'' \<and> out' @ cgi_send_queue c'' = ''xy''"
proof -
  let ?c = "start_cgi 9 5 6 (new_client 4 0 0)"
  obtain o1 c1 where 1: "queue_run append_cgi_stdin_pending consume_cgi_stdin_pending cgi_stdin_queue
      [Push ''abc'', Pop 2, Push ''d''] ?c = (o1, c1)" by (metis surj_pair)
  obtain o2 c2 where 2: "queue_run append_cgi_send_pending consume_cgi_send_pending cgi_send_queue
      [Push ''xy'', Pop 5] ?c = (o2, c2)" by (metis surj_pair)
  have "stdin_queue_ok ?c" "send_queue_ok ?c" "cgi_stdin_queue ?c = []" "cgi_send_queue ?c = []"
    by (simp_all add: stdin_queue_ok_def send_queue_ok_def start_cgi_def stdin_queue_drop send_queue_drop)
  with queues_lose_nothing [OF _ _ 1 2] have
    "o1 @ cgi_stdin_queue c1 = ''abcd'' \<and> o2 @ cgi_send_queue c2 = ''xy''" by simp
  then show ?thesis by (simp only: Let_def 1 2 prod.case)
qed

section \<open>One turn of the decoder\<close>

lemma decode_idle: "cl_chunk_buf c = [] \<Longrightarrow> decode_loop c d = (True, c, d, False)"
  by (simp add: decode_loop.simps [of c])

lemma decode_done:
  "cl_chunk_buf c \<noteq> [] \<Longrightarrow> cl_chunk_state c = CHUNK_DEC_DONE \<Longrightarrow> decode_loop c d = (True, c, d, True)"
  by (simp add: decode_loop.simps [of c])

text \<open>One turn of the loop: \<open>Inl\<close> a result, \<open>Inr\<close> the state of the next turn.\<close>

definition decode_turn ::
  "client \<Rightarrow> string \<Rightarrow> (bool \<times> client \<times> string \<times> bool) + (client \<times> string)" where
  "decode_turn c decoded =
     (case cl_chunk_state c of
        CHUNK_DEC_SIZE \<Rightarrow>
          (case split_crlf (cl_chunk_buf c) of
             None \<Rightarrow> Inl (True, c, decoded, False)
           | Some (line, rest) \<Rightarrow>
               let c = c\<lparr>cl_chunk_buf := rest\<rparr>;
                   line = (case find_char CHR '';'' line of
                             Some semi \<Rightarrow> substr line 0 semi | None \<Rightarrow> line)
               in case chunk_line_size 0 line of
                    None \<Rightarrow> Inl (False, c, decoded, False)
                  | Some n \<Rightarrow>
                      Inr (c\<lparr>cl_chunk_remaining := n,
                             cl_chunk_state := (if n = 0 then CHUNK_DEC_TRAILERS else CHUNK_DEC_DATA)\<rparr>,
                           decoded))
      | CHUNK_DEC_DATA \<Rightarrow>
          let avail = (if length (cl_chunk_buf c) < unat (cl_chunk_remaining c)
                       then length (cl_chunk_buf c) else unat (cl_chunk_remaining c));
              decoded = decoded @ substr (cl_chunk_buf c) 0 avail;
              remaining = cl_chunk_remaining c - word_of_nat avail;
              c = c\<lparr>cl_chunk_buf := drop avail (cl_chunk_buf c), cl_chunk_remaining := remaining\<rparr>
          in if remaining = 0 then Inr (c\<lparr>cl_chunk_state := CHUNK_DEC_DATA_CRLF\<rparr>, decoded)
             else Inl (True, c, decoded, False)
      | CHUNK_DEC_DATA_CRLF \<Rightarrow>
          if length (cl_chunk_buf c) < 2 then Inl (True, c, decoded, False)
          else if cl_chunk_buf c ! 0 \<noteq> CR \<or> cl_chunk_buf c ! 1 \<noteq> LF then Inl (False, c, decoded, False)
          else Inr (c\<lparr>cl_chunk_buf := drop 2 (cl_chunk_buf c), cl_chunk_state := CHUNK_DEC_SIZE\<rparr>, decoded)
      | CHUNK_DEC_TRAILERS \<Rightarrow>
          (case split_crlf (cl_chunk_buf c) of
             None \<Rightarrow> Inl (True, c, decoded, False)
           | Some (line, rest) \<Rightarrow>
               let c = c\<lparr>cl_chunk_buf := rest\<rparr> in
               if line = [] then Inl (True, c\<lparr>cl_chunk_state := CHUNK_DEC_DONE\<rparr>, decoded, True)
               else Inr (c, decoded))
      | CHUNK_DEC_DONE \<Rightarrow> Inl (True, c, decoded, True))"

lemma decode_loop_turn:
  "cl_chunk_buf c \<noteq> [] \<Longrightarrow>
     decode_loop c d = (case decode_turn c d of Inl res \<Rightarrow> res | Inr (c', d') \<Rightarrow> decode_loop c' d')"
  by (cases "cl_chunk_state c"; subst decode_loop.simps)
     (simp_all add: decode_turn_def Let_def split: option.split)

lemma decode_turn_less:
  "cl_chunk_buf c \<noteq> [] \<Longrightarrow> decode_turn c d = Inr (c', d') \<Longrightarrow> decode_measure c' < decode_measure c"
  by (auto simp: decode_turn_def decode_measure_def Let_def
      split: chunk_dec_state.splits option.splits if_splits prod.splits dest!: split_crlf_length)

lemma decode_rule [consumes 1, case_names idle stop turn]:
  assumes "decode_loop c d = (ok, c', d', eof)"
    and "\<And>c d. cl_chunk_buf c = [] \<Longrightarrow> P c d True c d False"
    and "\<And>c d ok c' d' eof. cl_chunk_buf c \<noteq> [] \<Longrightarrow> decode_turn c d = Inl (ok, c', d', eof) \<Longrightarrow>
           P c d ok c' d' eof"
    and "\<And>c d c1 d1 ok c' d' eof. cl_chunk_buf c \<noteq> [] \<Longrightarrow> decode_turn c d = Inr (c1, d1) \<Longrightarrow>
           decode_loop c1 d1 = (ok, c', d', eof) \<Longrightarrow> P c1 d1 ok c' d' eof \<Longrightarrow> P c d ok c' d' eof"
  shows "P c d ok c' d' eof"
  using assms(1)
proof (induction "decode_measure c" arbitrary: c d rule: less_induct)
  case less
  show ?case
  proof (cases "cl_chunk_buf c = []")
    case True
    with less.prems assms(2) show ?thesis by (simp add: decode_idle)
  next
    case False
    show ?thesis
    proof (cases "decode_turn c d")
      case (Inl res)
      with False less.prems assms(3) show ?thesis by (simp add: decode_loop_turn)
    next
      case (Inr cd)
      obtain c1 d1 where cd: "cd = (c1, d1)" by (cases cd)
      with Inr False less.prems have "decode_loop c1 d1 = (ok, c', d', eof)"
        by (simp add: decode_loop_turn)
      with less.hyps [OF decode_turn_less [OF False]] assms(4) Inr cd False show ?thesis by blast
    qed
  qed
qed

section \<open>Independence from packet boundaries\<close>

definition chunk_feed :: "string \<Rightarrow> client \<Rightarrow> client" where
  "chunk_feed b c = c\<lparr>cl_chunk_buf := cl_chunk_buf c @ b\<rparr>"

lemma chunk_feed_simps [simp]:
  "cl_chunk_buf (chunk_feed b c) = cl_chunk_buf c @ b"
  "cl_chunk_state (chunk_feed b c) = cl_chunk_state c"
  "cl_chunk_remaining (chunk_feed b c) = cl_chunk_remaining c"
  "chunk_feed [] c = c"
  "chunk_feed b (chunk_feed a c) = chunk_feed (a @ b) c"
  by (simp_all add: chunk_feed_def)

text \<open>A turn that goes on, fails or ends the body does the same with more input behind it.\<close>

lemma decode_turn_on:
  assumes "decode_turn c d = Inr (c1, d1)"
  shows "decode_turn (chunk_feed b c) d = Inr (chunk_feed b c1, d1)"
proof (cases "cl_chunk_state c")
  case CHUNK_DEC_SIZE
  with assms show ?thesis
    by (auto simp: decode_turn_def Let_def chunk_feed_def split_crlf_append split: option.splits)
next
  case CHUNK_DEC_DATA
  let ?l = "length (cl_chunk_buf c)" and ?r = "cl_chunk_remaining c"
  have l: "\<not> ?l < unat ?r"
  proof
    assume less: "?l < unat ?r"
    then have "?r - word_of_nat ?l = 0"
      using assms CHUNK_DEC_DATA by (simp add: decode_turn_def Let_def split: if_splits)
    then show False using unat_minus_length [of ?l ?r] less by simp
  qed
  then show ?thesis
    using assms CHUNK_DEC_DATA by (auto simp: decode_turn_def Let_def chunk_feed_def substr_0)
next
  case CHUNK_DEC_DATA_CRLF
  with assms show ?thesis
    by (auto simp: decode_turn_def chunk_feed_def nth_append split: if_splits)
next
  case CHUNK_DEC_TRAILERS
  with assms show ?thesis
    by (auto simp: decode_turn_def Let_def chunk_feed_def split_crlf_append split: option.splits if_splits)
next
  case CHUNK_DEC_DONE
  with assms show ?thesis by (simp add: decode_turn_def)
qed

lemma decode_turn_fail:
  assumes "decode_turn c d = Inl (False, c1, d1, e)"
  shows "decode_turn (chunk_feed b c) d = Inl (False, chunk_feed b c1, d1, e)"
  using assms
  by (cases "cl_chunk_state c")
     (auto simp: decode_turn_def Let_def chunk_feed_def nth_append split_crlf_append
        split: option.splits if_splits)

lemma decode_turn_data:
  assumes "decode_turn c d = Inl (ok, c1, d1, e)" and "cl_chunk_state c = CHUNK_DEC_DATA"
  shows "cl_chunk_state c1 = CHUNK_DEC_DATA" and "\<not> e" and "ok"
  using assms by (auto simp: decode_turn_def Let_def simp del: if_split split: if_split_asm)

lemma decode_turn_end:
  assumes "decode_turn c d = Inl (True, c1, d1, e)" and "cl_chunk_state c1 = CHUNK_DEC_DONE"
  shows "decode_turn (chunk_feed b c) d = Inl (True, chunk_feed b c1, d1, e)"
proof (cases "cl_chunk_state c")
  case CHUNK_DEC_TRAILERS
  with assms show ?thesis
    by (auto simp: decode_turn_def Let_def chunk_feed_def split_crlf_append
        split: option.split_asm if_split_asm)
next
  case CHUNK_DEC_DONE
  with assms show ?thesis by (simp add: decode_turn_def)
next
  case CHUNK_DEC_DATA
  with assms decode_turn_data(1) [OF assms(1)] show ?thesis by simp
next
  case CHUNK_DEC_SIZE
  with assms show ?thesis
    by (simp add: decode_turn_def Let_def split: option.split_asm prod.split_asm)
next
  case CHUNK_DEC_DATA_CRLF
  with assms show ?thesis by (simp add: decode_turn_def split: if_split_asm)
qed

lemma decode_turn_data_eq:
  assumes "cl_chunk_state c = CHUNK_DEC_DATA"
    and "(if length (cl_chunk_buf c) < unat (cl_chunk_remaining c) then length (cl_chunk_buf c)
          else unat (cl_chunk_remaining c)) = a"
    and "cl_chunk_remaining c - word_of_nat a = r"
  shows "decode_turn c d =
    (if r = 0 then Inr (c\<lparr>cl_chunk_buf := drop a (cl_chunk_buf c), cl_chunk_remaining := r,
                          cl_chunk_state := CHUNK_DEC_DATA_CRLF\<rparr>, d @ take a (cl_chunk_buf c))
     else Inl (True, c\<lparr>cl_chunk_buf := drop a (cl_chunk_buf c), cl_chunk_remaining := r\<rparr>,
               d @ take a (cl_chunk_buf c), False))"
  unfolding decode_turn_def Let_def assms substr_0 by simp

text \<open>A turn that waits did nothing, or consumed the whole buffer inside a chunk.\<close>

lemma decode_turn_wait:
  assumes "decode_turn c d = Inl (True, c1, d1, e)" and "cl_chunk_state c1 \<noteq> CHUNK_DEC_DONE"
  shows "c1 = c \<and> d1 = d \<or>
    cl_chunk_buf c1 = [] \<and> decode_turn (chunk_feed b c) d = decode_turn (chunk_feed b c1) d1"
proof (cases "cl_chunk_state c = CHUNK_DEC_DATA")
  case False
  then have "c1 = c \<and> d1 = d"
    using assms
    by (cases "cl_chunk_state c")
       (auto simp: decode_turn_def Let_def split: option.split_asm if_split_asm)
  then show ?thesis by simp
next
  case True
  let ?l = "length (cl_chunk_buf c)" and ?r = "cl_chunk_remaining c"
  from assms True have l: "?l < unat ?r"
    by (auto simp: decode_turn_def Let_def split: if_splits)
  then have c1: "c1 = c\<lparr>cl_chunk_buf := [], cl_chunk_remaining := ?r - word_of_nat ?l\<rparr>"
    and d1: "d1 = d @ cl_chunk_buf c"
    using assms True by (auto simp: decode_turn_def Let_def substr_0 split: if_splits)
  have u: "unat (?r - word_of_nat ?l) = unat ?r - ?l" using l by (intro unat_minus_length) simp
  define k where k: "k = (if length b < unat ?r - ?l then length b else unat ?r - ?l)"
  have a: "(if ?l + length b < unat ?r then ?l + length b else unat ?r) = ?l + k" using l by (auto simp: k)
  let ?s = "?r - word_of_nat (?l + k)"
  have 1: "decode_turn (chunk_feed b c) d =
      (if ?s = 0 then Inr (c\<lparr>cl_chunk_buf := drop k b, cl_chunk_remaining := ?s,
                            cl_chunk_state := CHUNK_DEC_DATA_CRLF\<rparr>, d1 @ take k b)
       else Inl (True, c\<lparr>cl_chunk_buf := drop k b, cl_chunk_remaining := ?s\<rparr>, d1 @ take k b, False))"
    by (subst decode_turn_data_eq [where a = "?l + k" and r = ?s])
       (use True a in \<open>auto simp: chunk_feed_def d1 split: if_split_asm\<close>)
  have 2: "decode_turn (chunk_feed b c1) d1 =
      (if ?s = 0 then Inr (c\<lparr>cl_chunk_buf := drop k b, cl_chunk_remaining := ?s,
                            cl_chunk_state := CHUNK_DEC_DATA_CRLF\<rparr>, d1 @ take k b)
       else Inl (True, c\<lparr>cl_chunk_buf := drop k b, cl_chunk_remaining := ?s\<rparr>, d1 @ take k b, False))"
    by (subst decode_turn_data_eq [where a = k and r = ?s])
       (use True u k in \<open>auto simp: chunk_feed_def c1\<close>)
  from 1 2 c1 show ?thesis by simp
qed

lemma decode_loop_feed:
  assumes "decode_loop c d = (ok, c', d', eof)"
  shows "(\<not> ok \<longrightarrow> decode_loop (chunk_feed b c) d = (False, chunk_feed b c', d', eof)) \<and>
    (ok \<longrightarrow> cl_chunk_state c' = CHUNK_DEC_DONE \<longrightarrow>
       (\<exists>e. decode_loop (chunk_feed b c) d = (True, chunk_feed b c', d', e))) \<and>
    (ok \<longrightarrow> cl_chunk_state c' \<noteq> CHUNK_DEC_DONE \<longrightarrow>
       decode_loop (chunk_feed b c) d = decode_loop (chunk_feed b c') d')"
  using assms
proof (induction rule: decode_rule)
  case (idle c d)
  then show ?case
    by (cases "b = []") (auto simp: decode_idle decode_done)
next
  case (stop c d ok c' d' eof)
  have ne: "cl_chunk_buf (chunk_feed b c) \<noteq> []" using stop(1) by simp
  show ?case
  proof (cases ok)
    case False
    with stop decode_turn_fail [of c d c' d' eof b] show ?thesis
      by (simp add: decode_loop_turn [OF ne])
  next
    case True
    show ?thesis
    proof (cases "cl_chunk_state c' = CHUNK_DEC_DONE")
      case dn: True
      with True stop decode_turn_end [of c d c' d' eof b] show ?thesis
        by (simp add: decode_loop_turn [OF ne])
    next
      case nd: False
      from decode_turn_wait [of c d c' d' eof b] stop True nd
      have w: "c' = c \<and> d' = d \<or> cl_chunk_buf c' = [] \<and>
          decode_turn (chunk_feed b c) d = decode_turn (chunk_feed b c') d'" by simp
      show ?thesis
      proof (cases "b = []")
        case True
        from w have "decode_loop c d = decode_loop c' d'"
        proof
          assume e: "cl_chunk_buf c' = [] \<and> decode_turn (chunk_feed b c) d = decode_turn (chunk_feed b c') d'"
          have "decode_loop c d = (True, c', d', eof)" using stop \<open>ok\<close> by (simp add: decode_loop_turn)
          moreover have "\<not> eof" using stop \<open>ok\<close> nd
            by (cases "cl_chunk_state c")
               (auto simp: decode_turn_def Let_def split: option.splits if_splits)
          ultimately show ?thesis using e by (simp add: decode_idle)
        qed simp
        with True nd \<open>ok\<close> show ?thesis by simp
      next
        case False
        then have "cl_chunk_buf (chunk_feed b c') \<noteq> []" by simp
        from w decode_loop_turn [OF this, of d'] decode_loop_turn [OF ne, of d]
        have "decode_loop (chunk_feed b c) d = decode_loop (chunk_feed b c') d'" by auto
        with nd \<open>ok\<close> show ?thesis by simp
      qed
    qed
  qed
next
  case (turn c d c1 d1 ok c' d' eof)
  have "cl_chunk_buf (chunk_feed b c) \<noteq> []" using turn(1) by simp
  from decode_loop_turn [OF this, of d] decode_turn_on [OF turn(2), of b] turn(4)
  show ?case by simp
qed

text \<open>The decoder as a machine: the object, the bytes decoded so far and whether it has failed.\<close>

type_synonym decoder = "client \<times> string \<times> bool"

fun decoder_feed :: "string \<Rightarrow> decoder \<Rightarrow> decoder" where
  "decoder_feed b (c, out, bad) = (chunk_feed b c, out, bad)"

fun decoder_failed :: "decoder \<Rightarrow> bool" where
  "decoder_failed (c, out, bad) = bad"

fun decoder_stage :: "decoder \<Rightarrow> bool \<times> decoder" where
  "decoder_stage (c, out, bad) =
     (if bad then (False, (c, out, bad))
      else let (ok, c', out', eof) = decode_loop c out
           in (ok \<and> cl_chunk_state c' = CHUNK_DEC_DONE, (c', out', \<not> ok)))"

lemma decode_loop_final: "cl_chunk_state c = CHUNK_DEC_DONE \<Longrightarrow> \<exists>e. decode_loop c d = (True, c, d, e)"
  by (cases "cl_chunk_buf c = []") (auto simp: decode_idle decode_done)

interpretation cgi_decoder: resumable_machine decoder_feed decoder_stage decoder_failed
proof (unfold_locales, goal_cases)
  case (1 s)
  show ?case by (cases s) simp
next
  case (2 b a s)
  show ?case by (cases s) simp
next
  case (3 b s)
  show ?case by (cases s) simp
next
  case (4 s t b)
  obtain c d bad where s: "s = (c, d, bad)" by (cases s)
  obtain ok c' d' e where r: "decode_loop c d = (ok, c', d', e)" by (metis prod_cases4)
  from 4 s r decode_loop_feed [OF r, of b] show ?case by auto
next
  case (5 s t b)
  obtain c d bad where s: "s = (c, d, bad)" by (cases s)
  obtain ok c' d' e where r: "decode_loop c d = (ok, c', d', e)" by (metis prod_cases4)
  from 5 s r decode_loop_feed [OF r, of b] show ?case by auto
next
  case (6 s t b)
  obtain c d bad where s: "s = (c, d, bad)" by (cases s)
  obtain ok c' d' e where r: "decode_loop c d = (ok, c', d', e)" by (metis prod_cases4)
  from 6 s r decode_loop_feed [OF r, of b] show ?case by auto
next
  case (7 s t b)
  obtain c d bad where s: "s = (c, d, bad)" by (cases s)
  obtain ok c' d' e where r: "decode_loop c d = (ok, c', d', e)" by (metis prod_cases4)
  from 7 s r have "t = (c', d', False)" "cl_chunk_state (chunk_feed b c') = CHUNK_DEC_DONE"
    by (auto split: if_splits)
  with decode_loop_final [of "chunk_feed b c'" d'] show ?case by auto
next
  case (8 s)
  then show ?case by (cases s) simp
qed

lemma decode_loop_acc: "decode_loop c (x @ d) = (case decode_loop c d of (ok, c', d', e) \<Rightarrow> (ok, c', x @ d', e))"
proof -
  have t: "decode_turn c (x @ d) = (case decode_turn c d of
      Inl (ok, c', d', e) \<Rightarrow> Inl (ok, c', x @ d', e) | Inr (c', d') \<Rightarrow> Inr (c', x @ d'))" for c d
    by (cases "cl_chunk_state c") (simp_all add: decode_turn_def Let_def split: option.split)
  obtain ok c' d' e where r: "decode_loop c d = (ok, c', d', e)" by (metis prod_cases4)
  then have "decode_loop c (x @ d) = (ok, c', x @ d', e)"
  proof (induction rule: decode_rule)
    case (idle c d)
    then show ?case by (simp add: decode_idle)
  next
    case (stop c d ok c' d' eof)
    then show ?case by (simp add: decode_loop_turn t)
  next
    case (turn c d c1 d1 ok c' d' eof)
    then show ?case by (simp add: decode_loop_turn t)
  qed
  with r show ?thesis by simp
qed

text \<open>One call of \<open>decode_chunked_for_cgi\<close> per piece, as long as they succeed, with all bytes.\<close>

fun decode_pieces :: "client \<Rightarrow> string list \<Rightarrow> bool \<times> client \<times> string" where
  "decode_pieces c [] = (True, c, [])"
| "decode_pieces c (d # ds) =
     (case decode_chunked_for_cgi d c of
        (False, c', x, eof) \<Rightarrow> (False, c', x)
      | (True, c', x, eof) \<Rightarrow>
          (case decode_pieces c' ds of (ok, c'', y) \<Rightarrow> (ok, c'', x @ y)))"

lemma decode_chunked_feed: "decode_chunked_for_cgi d c = decode_loop (chunk_feed d c) []"
  by (simp add: decode_chunked_for_cgi_def chunk_feed_def)

definition run_pieces :: "decoder \<Rightarrow> string list \<Rightarrow> decoder" where
  "run_pieces s ds = foldl (\<lambda>s d. snd (decoder_stage (decoder_feed d s))) s ds"

lemma run_pieces_bad: "fst (snd (run_pieces (c, x, True) ds)) = x \<and> snd (snd (run_pieces (c, x, True) ds))"
  by (induction ds arbitrary: c) (simp_all add: run_pieces_def)

lemma run_pieces_decode:
  "decode_pieces c ds = (ok, c', y) \<Longrightarrow>
     snd (run_pieces (c, x, False) ds) = (x @ y, \<not> ok) \<and>
     (ok \<longrightarrow> fst (run_pieces (c, x, False) ds) = c')"
proof (induction ds arbitrary: c x y ok c')
  case Nil
  then show ?case by (simp add: run_pieces_def)
next
  case (Cons d ds)
  obtain ok1 c1 z e where r: "decode_loop (chunk_feed d c) [] = (ok1, c1, z, e)" by (metis prod_cases4)
  have rx: "decode_loop (chunk_feed d c) x = (ok1, c1, x @ z, e)"
    using decode_loop_acc [of "chunk_feed d c" x "[]"] r by simp
  have s: "run_pieces (c, x, False) (d # ds) = run_pieces (c1, x @ z, \<not> ok1) ds"
    by (simp add: run_pieces_def rx)
  show ?case
  proof (cases ok1)
    case False
    with r Cons.prems have "y = z" "\<not> ok" by (simp_all add: decode_chunked_feed)
    with s False run_pieces_bad [of c1 "x @ z" ds] show ?thesis
      by (cases "run_pieces (c1, x @ z, True) ds") simp
  next
    case True
    obtain ok2 c2 u where p: "decode_pieces c1 ds = (ok2, c2, u)" by (metis prod_cases3)
    with True r Cons.prems have "ok = ok2" "c' = c2" "y = z @ u" by (simp_all add: decode_chunked_feed)
    with s True Cons.IH [OF p, of "x @ z"] show ?thesis by simp
  qed
qed

text \<open>
  C25. The decoder of bodies for scripts does not see packet boundaries either: decoding a stream in
  any pieces, one call per \<open>read\<close>, forwards the bytes that one call on the whole stream gives, and
  fails exactly when that call fails; without a failure it also ends in the same object.
\<close>

theorem cgi_decoder_fragmentation:
  assumes "ds \<noteq> []"
  shows "\<exists>eof c''. decode_chunked_for_cgi (concat ds) c =
      (fst (decode_pieces c ds), c'', snd (snd (decode_pieces c ds)), eof) \<and>
    (fst (decode_pieces c ds) \<longrightarrow> c'' = fst (snd (decode_pieces c ds)))"
proof -
  obtain ok c' y where p: "decode_pieces c ds = (ok, c', y)" by (metis prod_cases3)
  obtain ok1 c1 z e where r: "decode_loop (chunk_feed (concat ds) c) [] = (ok1, c1, z, e)"
    by (metis prod_cases4)
  have "run_pieces (c, [], False) ds = snd (decoder_stage (decoder_feed (concat ds) (c, [], False)))"
    unfolding run_pieces_def using assms by (rule cgi_decoder.fragments)
  then have "run_pieces (c, [], False) ds = (c1, z, \<not> ok1)" by (simp add: r)
  with run_pieces_decode [OF p, of "[]"] show ?thesis by (simp add: p decode_chunked_feed r)
qed

theorem cgi_decoder_fragmentation_witness:
  "\<exists>eof c''. decode_chunked_for_cgi (concat [''3'' @ [CR], [LF] @ ''ab'', ''c'' @ crlf @ ''0'' @ crlf2])
       (new_client 4 0 0) =
      (fst (decode_pieces (new_client 4 0 0) [''3'' @ [CR], [LF] @ ''ab'', ''c'' @ crlf @ ''0'' @ crlf2]), c'',
       snd (snd (decode_pieces (new_client 4 0 0) [''3'' @ [CR], [LF] @ ''ab'', ''c'' @ crlf @ ''0'' @ crlf2])), eof) \<and>
    (fst (decode_pieces (new_client 4 0 0) [''3'' @ [CR], [LF] @ ''ab'', ''c'' @ crlf @ ''0'' @ crlf2]) \<longrightarrow>
       c'' = fst (snd (decode_pieces (new_client 4 0 0) [''3'' @ [CR], [LF] @ ''ab'', ''c'' @ crlf @ ''0'' @ crlf2])))"
  by (rule cgi_decoder_fragmentation) simp

section \<open>Agreement with the request parser\<close>

text \<open>The script decoder takes over from \<open>HTTPRequest\<close> in the middle of a body:
  \<open>same_progress\<close> relates the two when they are at the same place of the stream.\<close>

fun dec_state :: "chunked_state \<Rightarrow> chunk_dec_state" where
  "dec_state CHUNK_SIZE = CHUNK_DEC_SIZE"
| "dec_state CHUNK_DATA = CHUNK_DEC_DATA"
| "dec_state CHUNK_DATA_CRLF = CHUNK_DEC_DATA_CRLF"
| "dec_state CHUNK_TRAILERS = CHUNK_DEC_TRAILERS"

definition same_progress :: "request \<Rightarrow> client \<Rightarrow> bool" where
  "same_progress r c \<longleftrightarrow>
     cl_chunk_state c = dec_state (rq_chunked_state r) \<and>
     cl_chunk_remaining c = rq_chunk_remaining r \<and> cl_chunk_buf c = rq_buffer r"

definition inside_chunk :: "request \<Rightarrow> bool" where
  "inside_chunk r \<longleftrightarrow> (rq_chunked_state r = CHUNK_DATA \<longrightarrow> rq_chunk_remaining r \<noteq> 0)"

lemma chunk_line_size_hex:
  "chunk_line_size n s =
     (if \<forall>c \<in> set s. is_hex c then Some (foldl (\<lambda>n c. n * 16 + word_of_nat (the (hex_digit c))) n s)
      else None)"
  by (induction s arbitrary: n) (auto simp: is_hex_def split: option.splits)

lemma hex_line_untrimmed:
  assumes "\<forall>c \<in> set s. is_hex c" and "s \<noteq> []"
  shows "trim_of blanks s = s" and "find_first_not_of blanks s \<noteq> None"
proof -
  have b: "c \<notin> blanks" if "c \<in> set s" for c
    using assms(1) that is_hex_not [of c] by (auto simp: blanks_def)
  show "trim_of blanks s = s" using assms(2) b by (intro trim_of_id) simp_all
  show "find_first_not_of blanks s \<noteq> None"
    using assms(2) b by (cases s) (auto simp: find_first_not_of_def)
qed

text \<open>A size line both decoders accept is a non-empty line of digits, and gives the same size.\<close>

lemma size_lines_agree:
  assumes "chunk_line_size 0 s = Some n" and "find_first_not_of blanks s \<noteq> None"
  shows "parse_hex_string (trim_of blanks s) = Some n"
proof -
  have "s \<noteq> []" using assms(2) by (auto simp: find_first_not_of_def)
  moreover have "\<forall>c \<in> set s. is_hex c" using assms(1) by (auto simp: chunk_line_size_hex split: if_splits)
  ultimately show ?thesis
    using assms(1) by (simp add: hex_line_untrimmed chunk_line_size_hex parse_hex_string_def)
qed

lemma turn_size_agrees:
  assumes "rq_chunked_state r = CHUNK_SIZE" and "same_progress r c"
    and "parse_chunk_size r = (ok, t)" and "\<not> is_error t"
  shows "(\<exists>c1. decode_turn c d = Inl (False, c1, d, False)) \<or>
    rq_body t = rq_body r \<and> inside_chunk t \<and>
    (if ok then \<exists>c1. decode_turn c d = Inr (c1, d) \<and> same_progress t c1
     else decode_turn c d = Inl (True, c, d, False) \<and> t = r)"
proof (cases "split_crlf (rq_buffer r)")
  case None
  with assms show ?thesis
    by (auto simp: parse_chunk_size_def decode_turn_def same_progress_def inside_chunk_def)
next
  case (Some lr)
  then obtain line rest where s: "split_crlf (rq_buffer r) = Some (line, rest)" by (cases lr) simp
  let ?l = "case find_char CHR '';'' line of Some semi \<Rightarrow> substr line 0 semi | None \<Rightarrow> line"
  have a: "find_first_not_of blanks ?l \<noteq> None"
    and "parse_hex_string (trim_of blanks ?l) \<noteq> None"
    using assms(3,4) s by (auto simp: parse_chunk_size_def Let_def is_error_def split: if_splits option.splits)
  show ?thesis
  proof (cases "chunk_line_size 0 ?l")
    case None
    with assms(1,2) s show ?thesis by (simp add: decode_turn_def same_progress_def Let_def)
  next
    case (Some n)
    then have h: "parse_hex_string (trim_of blanks ?l) = Some n" using a by (rule size_lines_agree)
    have t: "ok" "t = r\<lparr>rq_buffer := rest, rq_chunk_remaining := n,
        rq_chunked_state := (if n = 0 then CHUNK_TRAILERS else CHUNK_DATA)\<rparr>"
      using assms(3) s a h by (simp_all add: parse_chunk_size_def Let_def)
    have "decode_turn c d = Inr (c\<lparr>cl_chunk_buf := rest, cl_chunk_remaining := n,
        cl_chunk_state := (if n = 0 then CHUNK_DEC_TRAILERS else CHUNK_DEC_DATA)\<rparr>, d)"
      using assms(1,2) s Some by (simp add: decode_turn_def same_progress_def Let_def)
    with t show ?thesis by (simp add: same_progress_def inside_chunk_def)
  qed
qed

lemma turn_data_agrees:
  assumes "rq_chunked_state r = CHUNK_DATA" and "same_progress r c" and "inside_chunk r"
    and "parse_chunk_data r = (ok, t)" and "\<not> is_error t"
  shows "\<exists>x c1. rq_body t = rq_body r @ x \<and> inside_chunk t \<and> same_progress t c1 \<and>
    decode_turn c d = (if ok then Inr (c1, d @ x) else Inl (True, c1, d @ x, False))"
proof (cases "unat (rq_chunk_remaining r) \<le> length (rq_buffer r)")
  case True
  let ?n = "unat (rq_chunk_remaining r)"
  have "ok" and t: "rq_body t = rq_body r @ take ?n (rq_buffer r)" "rq_buffer t = drop ?n (rq_buffer r)"
    "rq_chunk_remaining t = 0" "rq_chunked_state t = CHUNK_DATA_CRLF"
    using assms(4,5) True by (auto simp: parse_chunk_data_def Let_def is_error_def substr_0 split: if_splits)
  moreover have "decode_turn c d = Inr (c\<lparr>cl_chunk_buf := drop ?n (rq_buffer r), cl_chunk_remaining := 0,
      cl_chunk_state := CHUNK_DEC_DATA_CRLF\<rparr>, d @ take ?n (rq_buffer r))"
    by (subst decode_turn_data_eq [where a = ?n and r = 0])
       (use assms(1,2) True in \<open>simp_all add: same_progress_def\<close>)
  ultimately show ?thesis by (simp add: same_progress_def inside_chunk_def)
next
  case False
  let ?l = "length (rq_buffer r)" and ?r = "rq_chunk_remaining r"
  have t: "\<not> ok" "rq_body t = rq_body r @ rq_buffer r" "rq_buffer t = []"
    "rq_chunk_remaining t = ?r - word_of_nat ?l" "rq_chunked_state t = CHUNK_DATA"
    using assms(1,4) False by (auto simp: parse_chunk_data_def)
  have ne: "?r - word_of_nat ?l \<noteq> 0"
    using unat_minus_length [of ?l ?r] False by (metis diff_is_0_eq linorder_not_le nat_le_linear unsigned_0)
  have "decode_turn c d = Inl (True, c\<lparr>cl_chunk_buf := [], cl_chunk_remaining := ?r - word_of_nat ?l\<rparr>,
      d @ rq_buffer r, False)"
    by (subst decode_turn_data_eq [where a = ?l and r = "?r - word_of_nat ?l"])
       (use assms(1,2) False ne in \<open>simp_all add: same_progress_def\<close>)
  with t ne assms(1,2) show ?thesis by (simp add: same_progress_def inside_chunk_def)
qed

lemma turn_crlf_agrees:
  assumes "rq_chunked_state r = CHUNK_DATA_CRLF" and "same_progress r c"
    and "parse_chunk_data_crlf r = (ok, t)" and "\<not> is_error t"
  shows "rq_body t = rq_body r \<and> inside_chunk t \<and>
    (if ok then \<exists>c1. decode_turn c d = Inr (c1, d) \<and> same_progress t c1
     else decode_turn c d = Inl (True, c, d, False) \<and> t = r)"
  using assms
  by (auto simp: parse_chunk_data_crlf_def decode_turn_def same_progress_def inside_chunk_def
      is_error_def split: if_splits)

lemma chunk_turn_agrees:
  assumes "rq_chunked_state r \<noteq> CHUNK_TRAILERS" and "same_progress r c" and "inside_chunk r"
    and "chunk_turn r = (ok, t)" and "\<not> is_error t"
  shows "(\<exists>c1 d1 e. decode_turn c d = Inl (False, c1, d1, e)) \<or>
    (\<exists>x c1. rq_body t = rq_body r @ x \<and> inside_chunk t \<and> same_progress t c1 \<and>
       decode_turn c d = (if ok then Inr (c1, d @ x) else Inl (True, c1, d @ x, False)))"
proof (cases "rq_chunked_state r")
  case CHUNK_SIZE
  have "parse_chunk_size r = (ok, t)" using assms(4) CHUNK_SIZE by (simp add: chunk_turn_def)
  from turn_size_agrees [OF CHUNK_SIZE assms(2) this assms(5), of d] assms(2) show ?thesis
    by (auto split: if_splits)
next
  case CHUNK_DATA
  have "parse_chunk_data r = (ok, t)" using assms(4) CHUNK_DATA by (simp add: chunk_turn_def)
  from turn_data_agrees [OF CHUNK_DATA assms(2,3) this assms(5), of d] show ?thesis by blast
next
  case CHUNK_DATA_CRLF
  have "parse_chunk_data_crlf r = (ok, t)" using assms(4) CHUNK_DATA_CRLF by (simp add: chunk_turn_def)
  from turn_crlf_agrees [OF CHUNK_DATA_CRLF assms(2) this assms(5), of d] assms(2) show ?thesis
    by (auto split: if_splits)
qed (use assms in simp)

lemma chunk_turn_empty:
  assumes "rq_buffer r = []" and "inside_chunk r" and "chunk_turn r = (ok, t)"
  shows "\<not> ok \<and> t = r"
proof -
  have "rq_chunk_remaining r \<noteq> 0 \<Longrightarrow> \<not> unat (rq_chunk_remaining r) \<le> 0" by (simp add: unat_eq_zero)
  moreover have "r\<lparr>rq_body := rq_body r, rq_buffer := []\<rparr> = r" using assms(1) by simp
  ultimately show ?thesis
    using assms
    by (auto simp: chunk_turn_def inside_chunk_def parse_chunk_size_def parse_chunk_data_def
        parse_chunk_data_crlf_def split_crlf_def Let_def split: chunked_state.splits)
qed

lemma trailers_agree:
  assumes "parse_chunk_trailers r = (ok, t)" and "same_progress r c"
    and "rq_chunked_state r = CHUNK_TRAILERS" and "decode_loop c d = (True, c', d', e)"
  shows "d' = d \<and> rq_body t = rq_body r \<and>
    (if ok then cl_chunk_state c' = CHUNK_DEC_DONE \<and> cl_chunk_buf c' = rq_buffer t
     else same_progress t c')"
  using assms
proof (induction r arbitrary: c rule: parse_chunk_trailers.induct)
  case (1 r)
  show ?case
  proof (cases "split_crlf (rq_buffer r)")
    case None
    with 1 have "c' = c \<and> d' = d"
      by (cases "cl_chunk_buf c = []")
         (auto simp: decode_idle decode_loop_turn decode_turn_def same_progress_def)
    with None 1 show ?thesis by (simp add: parse_chunk_trailers_wait)
  next
    case (Some lr)
    then obtain line rest where s: "split_crlf (rq_buffer r) = Some (line, rest)" by (cases lr) simp
    have ne: "cl_chunk_buf c \<noteq> []"
      using s 1(3) split_crlf_less [OF s] by (auto simp: same_progress_def)
    show ?thesis
    proof (cases "line = []")
      case True
      with s ne 1 show ?thesis
        by (auto simp: parse_chunk_trailers_line decode_loop_turn decode_turn_def same_progress_def)
    next
      case False
      let ?r = "r\<lparr>rq_buffer := rest\<rparr>" and ?c = "c\<lparr>cl_chunk_buf := rest\<rparr>"
      have "parse_chunk_trailers ?r = (ok, t)"
        using 1(2) s False by (simp add: parse_chunk_trailers_line)
      moreover have "same_progress ?r ?c" "rq_chunked_state ?r = CHUNK_TRAILERS"
        using 1(3,4) by (simp_all add: same_progress_def)
      moreover have "decode_loop ?c d = (True, c', d', e)"
        using 1(3,4,5) s False ne by (simp add: decode_loop_turn decode_turn_def same_progress_def)
      ultimately show ?thesis using 1(1) [OF s refl refl False, of ?c] by simp
    qed
  qed
qed

lemma chunked_body_agrees:
  assumes "parse_chunked_body r = (ok, t)"
  shows "same_progress r c \<Longrightarrow> inside_chunk r \<Longrightarrow> \<not> is_error r \<Longrightarrow> \<not> is_error t \<Longrightarrow>
    decode_loop c d = (True, c', d', e) \<Longrightarrow>
    \<exists>x. d' = d @ x \<and> rq_body t = rq_body r @ x \<and>
      (if ok then cl_chunk_state c' = CHUNK_DEC_DONE \<and> cl_chunk_buf c' = rq_buffer t
       else same_progress t c' \<and> inside_chunk t)"
  using assms
proof (induction arbitrary: c d rule: parse_chunked_body_rule)
  case (trailers r ok t)
  have "inside_chunk t" if "\<not> ok"
    using trailers parse_chunk_trailers_frame [of r ok t] by (auto simp: inside_chunk_def)
  with trailers_agree [OF trailers(2,3,1) trailers(7)] show ?case by auto
next
  case (stop r t)
  show ?case
  proof (cases "cl_chunk_buf c = []")
    case True
    then have "rq_buffer r = []" using stop(3) by (simp add: same_progress_def)
    with chunk_turn_empty stop have "t = r" by blast
    with stop True show ?thesis by (simp add: decode_idle)
  next
    case False
    with chunk_turn_agrees [OF stop(1,3,4,2,6), of d] stop(7) show ?thesis
      by (auto simp: decode_loop_turn)
  qed
next
  case (turn r r' ok t)
  have ne: "cl_chunk_buf c \<noteq> []"
    using chunk_turn_empty [OF _ turn(5,2)] turn(4) by (auto simp: same_progress_def)
  have nerr: "\<not> is_error r'"
    using chunk_turn_frame [OF turn(2)] turn(6) by (simp add: is_error_def)
  from chunk_turn_agrees [OF turn(1,4,5,2) this, of d] turn(8) ne obtain x c1 where
    x: "rq_body r' = rq_body r @ x" "inside_chunk r'" "same_progress r' c1"
    and run: "decode_loop c1 (d @ x) = (True, c', d', e)"
    by (auto simp: decode_loop_turn)
  from turn(3) [OF x(3,2) nerr turn(7) run] x(1) show ?case by auto
qed

lemma chunk_turn_inside: "chunk_turn r = (ok, t) \<Longrightarrow> inside_chunk r \<Longrightarrow> inside_chunk t"
proof -
  have "unat (rq_chunk_remaining r - word_of_nat l) \<noteq> 0"
    if "l < unat (rq_chunk_remaining r)" for l
    using that unat_minus_length [of l "rq_chunk_remaining r"] by simp
  then have "rq_chunk_remaining r - word_of_nat l \<noteq> 0" if "l < unat (rq_chunk_remaining r)" for l
    using that by (metis unsigned_0)
  then show "chunk_turn r = (ok, t) \<Longrightarrow> inside_chunk r \<Longrightarrow> inside_chunk t"
    by (auto simp: chunk_turn_def inside_chunk_def parse_chunk_size_def parse_chunk_data_def
        parse_chunk_data_crlf_def Let_def not_le
        split: chunked_state.splits option.splits if_splits)
qed

lemma chunked_body_inside:
  "parse_chunked_body r = (ok, t) \<Longrightarrow> inside_chunk r \<Longrightarrow> inside_chunk t"
proof (induction rule: parse_chunked_body_rule)
  case (trailers r ok t)
  then show ?case using parse_chunk_trailers_frame [of r ok t] by (auto simp: inside_chunk_def)
next
  case (stop r t)
  then show ?case using chunk_turn_inside by blast
next
  case (turn r r' ok t)
  then show ?case using chunk_turn_inside by blast
qed

lemma parse_inside: "parse_loop r = (ok, t) \<Longrightarrow> inside_chunk r \<Longrightarrow> inside_chunk t"
proof (induction rule: parse_loop_rule)
  case (line_stop r t)
  then show ?case using parse_request_line_frame [of r False t] by (simp add: inside_chunk_def)
next
  case (line r r' ok t)
  then show ?case using parse_request_line_frame [of r True r'] by (simp add: inside_chunk_def)
next
  case (headers_stop r t)
  then show ?case using parse_headers_frame [of r False t] by (simp add: inside_chunk_def)
next
  case (headers r r' ok t)
  then show ?case
    using parse_headers_frame [of r True r'] by (simp add: inside_chunk_def after_headers_def)
next
  case (body_stop r t)
  then show ?case using chunked_body_inside [of r False t]
    by (cases "rq_is_chunked r")
       (auto simp: body_chunked parse_body_def inside_chunk_def Let_def split: if_splits)
next
  case (body r r')
  then show ?case using chunked_body_inside [of r True r']
    by (cases "rq_is_chunked r")
       (auto simp: body_chunked parse_body_def inside_chunk_def Let_def split: if_splits)
qed auto

text \<open>
  C4. The script decoder takes over without losing a byte: let the request parser have stopped in a
  chunked body after some of the stream, and let the decoder be started from the parser's state
  with the parser's unread bytes and the rest of the stream, as \<open>dispatch_cgi\<close> does. If neither the
  parser, given that rest, nor the decoder reports an error, then the bytes the parser had collected
  followed by the bytes the decoder forwards are exactly the body the parser would have delivered,
  and the decoder knows the end of the body if and only if the parser does.
\<close>

theorem cgi_decoder_takes_over:
  assumes "parse (set_max_body_size m new_request) first = (False, r)"
    and "rq_state r = PARSSING_BODY" and "rq_is_chunked r"
    and "parse r tail = (ok, t)" and "\<not> is_error t"
    and "decode_chunked_for_cgi (rq_buffer r @ tail)
           (init_cgi_chunk_decoder (get_chunked_state r) (rq_chunk_remaining r) c) = (True, c', x, eof)"
  shows "rq_body t = rq_body r @ x \<and> (ok \<longleftrightarrow> cl_chunk_state c' = CHUNK_DEC_DONE)"
proof -
  have "inside_chunk (set_max_body_size m new_request\<lparr>rq_buffer := first\<rparr>)"
    by (simp add: inside_chunk_def set_max_body_size_def new_request_def)
  then have "inside_chunk r"
    using assms(1) parse_inside by (simp add: parse_def set_max_body_size_def new_request_def)
  then have ins: "inside_chunk (feed tail r)" by (simp add: inside_chunk_def feed_simps)
  let ?c = "chunk_feed (rq_buffer r @ tail)
      (init_cgi_chunk_decoder (get_chunked_state r) (rq_chunk_remaining r) c)"
  have prog: "same_progress (feed tail r) ?c"
    by (cases "rq_chunked_state r")
       (simp_all add: same_progress_def init_cgi_chunk_decoder_def get_chunked_state_def feed_simps)
  obtain ok1 t1 where body: "parse_chunked_body (feed tail r) = (ok1, t1)" by (metis surj_pair)
  then have t: "ok = ok1" "rq_body t = rq_body t1" "is_error t1 \<longrightarrow> is_error (feed tail r) \<or> \<not> ok1"
    "\<not> ok1 \<longrightarrow> t = t1"
    using assms(2,3,4) parse_chunked_body_frame [OF body]
    by (auto simp: parse_feed parse_loop_body feed_simps body_chunked is_error_def split: if_splits)
  have nerr: "\<not> is_error (feed tail r)" using assms(2) by (simp add: is_error_def feed_simps)
  with t assms(5) have "\<not> is_error t1" by auto
  from chunked_body_agrees [OF body prog ins nerr this] assms(6) obtain y where
    "x = [] @ y" "rq_body t1 = rq_body (feed tail r) @ y"
    "if ok1 then cl_chunk_state c' = CHUNK_DEC_DONE \<and> cl_chunk_buf c' = rq_buffer t1
     else same_progress t1 c' \<and> inside_chunk t1"
    unfolding decode_chunked_feed by metis
  moreover have "dec_state s \<noteq> CHUNK_DEC_DONE" for s by (cases s) simp_all
  ultimately show ?thesis using t by (auto simp: feed_simps same_progress_def split: if_splits)
qed

definition chunked_head :: string where
  "chunked_head = ''POST /a HTTP/1.1'' @ crlf @ ''Transfer-Encoding: chunked'' @ crlf2 @ ''3'' @ crlf @ ''ab''"

definition parser_stop :: request where
  "parser_stop = snd (parse (set_max_body_size 9 new_request) chunked_head)"

definition parser_end :: request where
  "parser_end = snd (parse parser_stop (''c'' @ crlf @ ''0'' @ crlf2))"

theorem cgi_decoder_takes_over_witness:
  "rq_body parser_end = rq_body parser_stop @ ''c'' \<and>
   (True \<longleftrightarrow> cl_chunk_state (fst (snd (decode_chunked_for_cgi (rq_buffer parser_stop @ ''c'' @ crlf @ ''0'' @ crlf2)
      (init_cgi_chunk_decoder (get_chunked_state parser_stop) (rq_chunk_remaining parser_stop) (new_client 4 0 0)))))
     = CHUNK_DEC_DONE)"
  by (rule cgi_decoder_takes_over [where m = 9 and first = chunked_head and c = "new_client 4 0 0"
        and tail = "''c'' @ crlf @ ''0'' @ crlf2" and eof = True]) code_simp+

end
