(* ===== verification/ServerState.thy ===== *)
theory ServerState
  imports Connection HandlerProps
begin

text \<open>
  The server object of \<open>src/src/Server.cpp\<close> and \<open>src/inc/Server.hpp\<close>: listening sockets, the client
  table, the \<open>poll\<close> vector and the two maps from script descriptors to clients, with the operations
  every handler uses and those that create and remove connections. The kernel is a parameter: a
  record of the system calls the server makes, over the state \<open>'w\<close> of the outside world. Handlers
  return \<open>None\<close> where the source indexes a vector outside its bounds.
\<close>

section \<open>System calls\<close>

text \<open>Results of \<open>send\<close> on a non-empty buffer (\<open>Sent n\<close>: \<open>n + 1\<close> bytes were taken; \<open>Send_Again\<close>:
  \<open>EAGAIN\<close>) and of \<open>poll\<close> (the \<open>revents\<close> of each entry, in order).\<close>

datatype send_result = Sent nat | Send_Again | Send_Failed

datatype poll_bit = POLLIN | POLLOUT | POLLHUP | POLLERR | POLLNVAL

record pollfd =
  pf_fd :: int
  pf_events :: "poll_bit set"
  pf_revents :: "poll_bit set"

datatype poll_outcome = Poll_Interrupted | Poll_Failed | Polled "poll_bit set list"

record 'w net =
  \<comment> \<open>\<open>time(NULL)\<close> and \<open>g_looping != 0\<close>\<close>
  nt_now :: "'w \<Rightarrow> int"
  nt_looping :: "'w \<Rightarrow> bool"
  \<comment> \<open>\<open>socket\<close>, \<open>bind\<close> to a port, \<open>listen\<close>\<close>
  nt_socket :: "'w \<Rightarrow> int option \<times> 'w"
  nt_bind :: "int \<Rightarrow> int \<Rightarrow> 'w \<Rightarrow> bool \<times> 'w"
  nt_listen :: "int \<Rightarrow> 'w \<Rightarrow> bool \<times> 'w"
  \<comment> \<open>the descriptors \<open>accept\<close> returns on a listening socket until it fails\<close>
  nt_accept :: "int \<Rightarrow> 'w \<Rightarrow> int list \<times> 'w"
  nt_poll :: "pollfd list \<Rightarrow> 'w \<Rightarrow> poll_outcome \<times> 'w"
  nt_read :: "int \<Rightarrow> 'w \<Rightarrow> read_result \<times> 'w"
  \<comment> \<open>\<open>write\<close>: the number of bytes taken, 0 where it is not positive\<close>
  nt_write :: "int \<Rightarrow> string \<Rightarrow> 'w \<Rightarrow> nat \<times> 'w"
  nt_send :: "int \<Rightarrow> string \<Rightarrow> 'w \<Rightarrow> send_result \<times> 'w"
  nt_close :: "int \<Rightarrow> 'w \<Rightarrow> 'w"
  \<comment> \<open>\<open>pipe\<close>: read end and write end; \<open>fork\<close> of a child that does what the record says; \<open>waitpid\<close>\<close>
  nt_pipe :: "'w \<Rightarrow> (int \<times> int) option \<times> 'w"
  nt_fork :: "launch \<Rightarrow> 'w \<Rightarrow> int option \<times> 'w"
  nt_wait :: "int \<Rightarrow> 'w \<Rightarrow> 'w"

abbreviation FAIR_IO_LIMIT :: nat where "FAIR_IO_LIMIT \<equiv> 262144"
abbreviation CGI_BACKPRESSURE_LIMIT :: nat where "CGI_BACKPRESSURE_LIMIT \<equiv> 4194304"
abbreviation CLIENT_TIMEOUT :: int where "CLIENT_TIMEOUT \<equiv> 120"

section \<open>State\<close>

record server_socket =
  ss_fd :: int
  ss_port :: int
  ss_index :: nat

record server =
  sv_sockets :: "server_socket list"
  sv_clients :: "(int, client) std_map"
  sv_poll :: "pollfd list"
  sv_configs :: "server_config list"
  sv_init_ok :: bool
  sv_cgi_out :: "(int, int) std_map"
  sv_cgi_in :: "(int, int) std_map"

definition get_client :: "server \<Rightarrow> int \<Rightarrow> client option" where
  "get_client s fd = map_of (sv_clients s) fd"

definition get_client_by_cgi_fd :: "server \<Rightarrow> int \<Rightarrow> int option" where
  "get_client_by_cgi_fd s cgi_fd =
     (case map_of (sv_cgi_out s) cgi_fd of
        None \<Rightarrow> None
      | Some fd \<Rightarrow> if get_client s fd = None then None else Some fd)"

definition isListeningSocket :: "server \<Rightarrow> int \<Rightarrow> bool" where
  "isListeningSocket s fd \<longleftrightarrow> (\<exists>x \<in> set (sv_sockets s). ss_fd x = fd)"

definition isCgiFd :: "server \<Rightarrow> int \<Rightarrow> bool" where
  "isCgiFd s fd \<longleftrightarrow> map_of (sv_cgi_out s) fd \<noteq> None"

definition isCgiStdinFd :: "server \<Rightarrow> int \<Rightarrow> bool" where
  "isCgiStdinFd s fd \<longleftrightarrow> map_of (sv_cgi_in s) fd \<noteq> None"

text \<open>Writing through a client pointer, and the configuration of a client.\<close>

definition put_client :: "int \<Rightarrow> client \<Rightarrow> server \<Rightarrow> server" where
  "put_client fd c s = s\<lparr>sv_clients := map_put fd c (sv_clients s)\<rparr>"

definition conf_of :: "server \<Rightarrow> client \<Rightarrow> server_config" where
  "conf_of s c = sv_configs s ! cl_server_index c"

text \<open>
  The idioms on the \<open>poll\<close> vector: erasing a slot, the loop that sets a bit in the first entry of a
  descriptor, the loop that erases that entry, and a new entry.
\<close>

definition erase_at :: "nat \<Rightarrow> 'a list \<Rightarrow> 'a list" where
  "erase_at i xs = take i xs @ drop (Suc i) xs"

definition or_event :: "poll_bit \<Rightarrow> pollfd \<Rightarrow> pollfd" where
  "or_event b p = p\<lparr>pf_events := insert b (pf_events p)\<rparr>"

definition drop_event :: "poll_bit \<Rightarrow> pollfd \<Rightarrow> pollfd" where
  "drop_event b p = p\<lparr>pf_events := pf_events p - {b}\<rparr>"

definition find_poll :: "int \<Rightarrow> pollfd list \<Rightarrow> nat option" where
  "find_poll fd ps = find_if (\<lambda>p. pf_fd p = fd) ps"

definition enable_fd :: "int \<Rightarrow> poll_bit \<Rightarrow> pollfd list \<Rightarrow> pollfd list" where
  "enable_fd fd b ps =
     (case find_poll fd ps of None \<Rightarrow> ps | Some i \<Rightarrow> ps[i := or_event b (ps ! i)])"

definition erase_fd :: "int \<Rightarrow> pollfd list \<Rightarrow> pollfd list" where
  "erase_fd fd ps = (case find_poll fd ps of None \<Rightarrow> ps | Some i \<Rightarrow> erase_at i ps)"

definition poll_entry :: "int \<Rightarrow> poll_bit \<Rightarrow> pollfd" where
  "poll_entry fd b = \<lparr>pf_fd = fd, pf_events = {b}, pf_revents = {}\<rparr>"

definition close_all :: "'w net \<Rightarrow> int list \<Rightarrow> 'w \<Rightarrow> 'w" where
  "close_all net fds w = foldl (\<lambda>w fd. nt_close net fd w) w fds"

definition wait_all :: "'w net \<Rightarrow> int list \<Rightarrow> 'w \<Rightarrow> 'w" where
  "wait_all net pids w = foldl (\<lambda>w pid. nt_wait net pid w) w pids"

section \<open>Start and end of the server\<close>

definition empty_server :: "server_config list \<Rightarrow> server" where
  "empty_server configs =
     \<lparr>sv_sockets = [], sv_clients = [], sv_poll = [], sv_configs = configs, sv_init_ok = True,
      sv_cgi_out = [], sv_cgi_in = []\<rparr>"

definition cleanup_sockets :: "'w net \<Rightarrow> server \<Rightarrow> 'w \<Rightarrow> server \<times> 'w" where
  "cleanup_sockets net s w =
     (s\<lparr>sv_sockets := [], sv_poll := []\<rparr>,
      close_all net (filter (\<lambda>fd. fd \<noteq> - 1) (map ss_fd (sv_sockets s))) w)"

text \<open>The loop of the constructor, from configuration \<open>i\<close> on.\<close>

fun open_sockets :: "'w net \<Rightarrow> nat \<Rightarrow> server_config list \<Rightarrow> server \<Rightarrow> 'w \<Rightarrow> server \<times> 'w" where
  "open_sockets net i [] s w = (s, w)"
| "open_sockets net i (conf # confs) s w =
     (let give_up = (\<lambda>s w. let (s, w) = cleanup_sockets net s w in (s\<lparr>sv_init_ok := False\<rparr>, w)) in
      case nt_socket net w of
        (None, w) \<Rightarrow> give_up s w
      | (Some fd, w) \<Rightarrow>
         (case nt_bind net fd (sc_port conf) w of
            (False, w) \<Rightarrow> give_up s (nt_close net fd w)
          | (True, w) \<Rightarrow>
             (case nt_listen net fd w of
                (False, w) \<Rightarrow> give_up s (nt_close net fd w)
              | (True, w) \<Rightarrow>
                  open_sockets net (Suc i) confs
                    (s\<lparr>sv_sockets := sv_sockets s @ [\<lparr>ss_fd = fd, ss_port = sc_port conf, ss_index = i\<rparr>],
                       sv_poll := sv_poll s @ [poll_entry fd POLLIN]\<rparr>) w)))"

definition new_server_object :: "'w net \<Rightarrow> server_config list \<Rightarrow> 'w \<Rightarrow> server \<times> 'w" where
  "new_server_object net configs w = open_sockets net 0 configs (empty_server configs) w"

definition destroy_server :: "'w net \<Rightarrow> server \<Rightarrow> 'w \<Rightarrow> 'w" where
  "destroy_server net s w =
     close_all net (map fst (sv_clients s) @ filter (\<lambda>fd. fd \<noteq> - 1) (map ss_fd (sv_sockets s))) w"

section \<open>Connections\<close>

text \<open>One accepted connection: \<open>clients_.insert\<close> keeps an entry that exists.\<close>

definition add_client :: "int \<Rightarrow> nat \<Rightarrow> int \<Rightarrow> server \<Rightarrow> server" where
  "add_client fd server_index now s =
     s\<lparr>sv_clients := (if map_of (sv_clients s) fd = None
                     then map_put fd (new_client fd server_index now) (sv_clients s)
                     else sv_clients s),
       sv_poll := sv_poll s @ [poll_entry fd POLLIN]\<rparr>"

definition accept_client :: "'w net \<Rightarrow> int \<Rightarrow> server \<Rightarrow> 'w \<Rightarrow> (server \<times> 'w) option" where
  "accept_client net server_fd s w =
     (let server_index = (case find_if (\<lambda>x. ss_fd x = server_fd) (sv_sockets s) of
                            Some i \<Rightarrow> ss_index (sv_sockets s ! i) | None \<Rightarrow> 0)
      in if length (sv_sockets s) \<le> server_index then None
         else let (fds, w) = nt_accept net (ss_fd (sv_sockets s ! server_index)) w
              in Some (foldl (\<lambda>s fd. add_client fd server_index (nt_now net w) s) s fds, w))"

text \<open>Removing the entry of a script descriptor, with the correction of \<open>index\<close>.\<close>

definition drop_poll_fd :: "int \<Rightarrow> pollfd list \<times> nat \<Rightarrow> pollfd list \<times> nat" where
  "drop_poll_fd fd pi =
     (case find_poll fd (fst pi) of
        None \<Rightarrow> pi
      | Some i \<Rightarrow> (erase_at i (fst pi), if i < snd pi then snd pi - 1 else snd pi))"

definition drop_cgi_out :: "client \<Rightarrow> server \<times> nat \<Rightarrow> server \<times> nat" where
  "drop_cgi_out cl si =
     (let cgi_out = cl_cgi_stdout_fd cl; (s, index) = si in
      if cgi_out \<noteq> - 1 then
        let (p, index) = drop_poll_fd cgi_out (sv_poll s, index)
        in (s\<lparr>sv_cgi_out := map_erase cgi_out (sv_cgi_out s), sv_poll := p\<rparr>, index)
      else (s, index))"

definition drop_cgi_in :: "client \<Rightarrow> server \<times> nat \<Rightarrow> server \<times> nat" where
  "drop_cgi_in cl si =
     (let cgi_in = cl_cgi_stdin_fd cl; (s, index) = si in
      if cgi_in \<noteq> - 1 then
        let (p, index) = drop_poll_fd cgi_in (sv_poll s, index)
        in (s\<lparr>sv_cgi_in := map_erase cgi_in (sv_cgi_in s), sv_poll := p\<rparr>, index)
      else (s, index))"

definition remove_client :: "'w net \<Rightarrow> nat \<Rightarrow> server \<Rightarrow> 'w \<Rightarrow> (server \<times> 'w) option" where
  "remove_client net index s w =
     (if length (sv_poll s) \<le> index then None
      else let fd = pf_fd (sv_poll s ! index);
               (s, index, w) =
                 (case get_client s fd of
                    None \<Rightarrow> (s, index, w)
                  | Some cl \<Rightarrow>
                      let (s, index) = drop_cgi_in cl (drop_cgi_out cl (s, index));
                          (fds, pids, cl) = finish_cgi cl
                      in (put_client fd cl s, index, wait_all net pids (close_all net fds w)))
           in if length (sv_poll s) \<le> index then None
              else Some (s\<lparr>sv_clients := map_erase fd (sv_clients s),
                           sv_poll := erase_at index (sv_poll s)\<rparr>, nt_close net fd w))"

text \<open>Removing a client makes the vector shorter.\<close>

lemma length_erase_at: "i < length xs \<Longrightarrow> length (erase_at i xs) = length xs - 1"
  by (simp add: erase_at_def)

lemma drop_poll_fd_le: "length (fst (drop_poll_fd fd pi)) \<le> length (fst pi)"
  by (auto simp: drop_poll_fd_def erase_at_def find_poll_def split: option.split dest: find_if_length)

lemma drop_cgi_le:
  "length (sv_poll (fst (drop_cgi_out cl si))) \<le> length (sv_poll (fst si))"
  "length (sv_poll (fst (drop_cgi_in cl si))) \<le> length (sv_poll (fst si))"
  using drop_poll_fd_le [of "cl_cgi_stdout_fd cl" "(sv_poll (fst si), snd si)"]
    drop_poll_fd_le [of "cl_cgi_stdin_fd cl" "(sv_poll (fst si), snd si)"]
  by (cases si; auto simp: drop_cgi_out_def drop_cgi_in_def Let_def split: prod.split)+

lemma remove_client_less:
  assumes "remove_client net i s w = Some (s', w')"
  shows "length (sv_poll s') < length (sv_poll s)"
proof (cases "get_client s (pf_fd (sv_poll s ! i))")
  case None
  with assms show ?thesis
    by (auto simp: remove_client_def Let_def length_erase_at split: if_splits)
next
  case (Some cl)
  obtain s1 j where d: "drop_cgi_in cl (drop_cgi_out cl (s, i)) = (s1, j)" by (metis surj_pair)
  have "length (sv_poll s1) \<le> length (sv_poll s)"
    using drop_cgi_le(1) [of cl "(s, i)"] drop_cgi_le(2) [of cl "drop_cgi_out cl (s, i)"] d by simp
  with assms Some d show ?thesis
    by (auto simp: remove_client_def Let_def put_client_def length_erase_at
        split: if_splits prod.splits)
qed

end
