(* ===== verification/ServerCgi.thy ===== *)
theory ServerCgi
  imports ServerState
begin

text \<open>
  Scripts in the event loop of \<open>src/src/Server.cpp\<close>: reading a script's output and streaming it to the
  client (\<open>handle_cgi_output\<close>, \<open>finalize_cgi\<close>), writing the queued body to its input
  (\<open>handle_cgi_stdin_writable\<close>), and starting it (\<open>dispatch_cgi\<close>). A handler that takes \<open>idx\<close> by
  reference returns the new index. The loops carry the client object, the \<open>poll\<close> vector and the
  world, and the handler writes the object back through its pointer.
\<close>

section \<open>Output of a script\<close>

text \<open>The bytes of one \<open>read\<close>: collected until the script's header is complete, then streamed.\<close>

definition stream_output ::
  "server_config \<Rightarrow> string \<Rightarrow> client \<Rightarrow> pollfd list \<Rightarrow> client \<times> pollfd list" where
  "stream_output conf bytes c p =
     (if \<not> cl_headers_sent c then
        let c = append_cgi_output bytes c;
            raw = cl_cgi_output c
        in case find_sub crlf2 raw of
             None \<Rightarrow> (c, p)
           | Some hdr_end \<Rightarrow>
               let resp = set_header ''Connection'' ''close''
                            (parse_cgi_headers (substr raw 0 hdr_end) conf);
                   c = append_cgi_send_pending (header_to_string resp) c;
                   body_start = hdr_end + 4;
                   c = (if body_start < length raw
                        then append_cgi_send_pending (drop body_start raw) c else c)
               in (c\<lparr>cl_headers_sent := True\<rparr>, enable_fd (cl_fd c) POLLOUT p)
      else (append_cgi_send_pending bytes c, enable_fd (cl_fd c) POLLOUT p))"

text \<open>The loop of \<open>handle_cgi_output\<close>; the flag tells whether the output has ended.\<close>

function cgi_output_loop ::
  "'w net \<Rightarrow> server_config \<Rightarrow> int \<Rightarrow> nat \<Rightarrow> nat \<Rightarrow> client \<Rightarrow> pollfd list \<Rightarrow> 'w \<Rightarrow>
     bool \<times> client \<times> pollfd list \<times> 'w" where
  "cgi_output_loop net conf cgi_fd idx total_read c p w =
     (if FAIR_IO_LIMIT \<le> total_read then (False, c, p, w)
      else case nt_read net cgi_fd w of
        (Got b bs, w) \<Rightarrow>
          let (c, p) = stream_output conf (b # bs) c p in
          if CGI_BACKPRESSURE_LIMIT < cgi_send_pending_size c
          then (False, c, p[idx := drop_event POLLIN (p ! idx)], w)
          else cgi_output_loop net conf cgi_fd idx (total_read + length (b # bs)) c p w
      | (Again, w) \<Rightarrow> (False, c, p, w)
      | (Eof, w) \<Rightarrow> (True, c, p, w)
      | (Broken, w) \<Rightarrow> (True, c, p, w))"
  by pat_completeness auto
termination
  by (relation "measure (\<lambda>(net, conf, cgi_fd, idx, total_read, c, p, w). FAIR_IO_LIMIT - total_read)") auto

declare cgi_output_loop.simps [simp del]

text \<open>The response for a script that ended before its header was complete.\<close>

definition cgi_result :: "'w sys \<Rightarrow> 'w \<Rightarrow> string \<Rightarrow> server_config \<Rightarrow> response" where
  "cgi_result os w raw conf =
     set_header ''Connection'' ''close''
       (if raw = [] then error_500 os w (get_error_page 500 conf)
        else parse_cgi_response os w raw conf)"

definition finalize_cgi ::
  "'w sys \<Rightarrow> 'w net \<Rightarrow> int \<Rightarrow> client \<Rightarrow> nat \<Rightarrow> server \<Rightarrow> 'w \<Rightarrow> server \<times> 'w" where
  "finalize_cgi os net key c idx s w =
     (let conf = conf_of s c;
          (c, p, w) =
            (if \<not> cl_headers_sent c then
               let response = cgi_result os w (cl_cgi_output c) conf;
                   (fds, pids, c) = finish_cgi c;
                   w = wait_all net pids (close_all net fds w);
                   c = set_response (to_string response) c;
                   p = (if idx < length (sv_poll s) \<and> pf_fd (sv_poll s ! idx) = cl_fd c
                        then (sv_poll s)[idx := or_event POLLOUT (sv_poll s ! idx)]
                        else enable_fd (cl_fd c) POLLOUT (sv_poll s))
               in (c, p, w)
             else
               let (fds, pids, c) = finish_cgi c;
                   w = wait_all net pids (close_all net fds w)
               in (c, enable_fd (cl_fd c) POLLOUT (sv_poll s), w))
      in (put_client key (clear_buffer c) (s\<lparr>sv_poll := p\<rparr>), w))"

definition handle_cgi_output ::
  "'w sys \<Rightarrow> 'w net \<Rightarrow> nat \<Rightarrow> server \<Rightarrow> 'w \<Rightarrow> (nat \<times> server \<times> 'w) option" where
  "handle_cgi_output os net idx s w =
     (if length (sv_poll s) \<le> idx then None
      else let cgi_fd = pf_fd (sv_poll s ! idx) in
        case get_client_by_cgi_fd s cgi_fd of
          None \<Rightarrow>
            Some (idx, s\<lparr>sv_cgi_out := map_erase cgi_fd (sv_cgi_out s),
                         sv_poll := erase_at idx (sv_poll s)\<rparr>, nt_close net cgi_fd w)
        | Some key \<Rightarrow>
            let c = the (get_client s key);
                conf = conf_of s c;
                (ended, c, p, w) = cgi_output_loop net conf cgi_fd idx 0 c (sv_poll s) w
            in if \<not> ended then Some (idx + 1, put_client key c (s\<lparr>sv_poll := p\<rparr>), w)
               else
                 let client_idx = (case find_poll (cl_fd c) p of Some i \<Rightarrow> i | None \<Rightarrow> 0);
                     w = nt_close net cgi_fd w;
                     c = c\<lparr>cl_cgi_stdout_fd := - 1\<rparr>;
                     s = put_client key c (s\<lparr>sv_cgi_out := map_erase cgi_fd (sv_cgi_out s),
                                             sv_poll := erase_at idx p\<rparr>);
                     client_idx = (if idx < client_idx then client_idx - 1 else client_idx);
                     (s, w) = finalize_cgi os net key c client_idx s w
                 in Some (idx, s, w))"

section \<open>Input of a script\<close>

function stdin_write_loop ::
  "'w net \<Rightarrow> int \<Rightarrow> nat \<Rightarrow> client \<Rightarrow> 'w \<Rightarrow> client \<times> 'w" where
  "stdin_write_loop net stdin_fd total_written c w =
     (if is_cgi_stdin_pending_empty c \<or> FAIR_IO_LIMIT \<le> total_written then (c, w)
      else case nt_write net stdin_fd (cgi_stdin_queue c) w of
        (written, w) \<Rightarrow>
          if 0 < written
          then stdin_write_loop net stdin_fd (total_written + written)
                 (consume_cgi_stdin_pending written c) w
          else (c, w))"
  by pat_completeness auto
termination
  by (relation "measure (\<lambda>(net, stdin_fd, total_written, c, w). FAIR_IO_LIMIT - total_written)") auto

declare stdin_write_loop.simps [simp del]

definition handle_cgi_stdin_writable ::
  "'w net \<Rightarrow> nat \<Rightarrow> server \<Rightarrow> 'w \<Rightarrow> (nat \<times> server \<times> 'w) option" where
  "handle_cgi_stdin_writable net idx s w =
     (if length (sv_poll s) \<le> idx then None
      else let stdin_fd = pf_fd (sv_poll s ! idx) in
        case map_of (sv_cgi_in s) stdin_fd of
          None \<Rightarrow> Some (idx, s\<lparr>sv_poll := erase_at idx (sv_poll s)\<rparr>, nt_close net stdin_fd w)
        | Some key \<Rightarrow>
           (case get_client s key of
              None \<Rightarrow>
                Some (idx, s\<lparr>sv_cgi_in := map_erase stdin_fd (sv_cgi_in s),
                             sv_poll := erase_at idx (sv_poll s)\<rparr>, nt_close net stdin_fd w)
            | Some c \<Rightarrow>
                let (c, w) = stdin_write_loop net stdin_fd 0 c w in
                if is_cgi_stdin_pending_empty c \<and> cl_stdin_eof c then
                  let (fds, c) = close_cgi_stdin c
                  in Some (idx, put_client key c (s\<lparr>sv_cgi_in := map_erase stdin_fd (sv_cgi_in s),
                                                   sv_poll := erase_at idx (sv_poll s)\<rparr>),
                           close_all net fds w)
                else
                  let p = sv_poll s;
                      p = (if cgi_stdin_pending_size c < CGI_BACKPRESSURE_LIMIT
                           then enable_fd (cl_fd c) POLLIN p else p);
                      p = (if is_cgi_stdin_pending_empty c
                           then p[idx := drop_event POLLOUT (p ! idx)] else p)
                  in Some (idx + 1, put_client key c (s\<lparr>sv_poll := p\<rparr>), w)))"

section \<open>Starting a script\<close>

text \<open>
  What the child gets: the source builds the environment here a second time, with the unresolved
  script path. The input is written later, so \<open>ln_stdin\<close> is empty.
\<close>

definition dispatch_launch :: "'w sys \<Rightarrow> 'w \<Rightarrow> request \<Rightarrow> route_config \<Rightarrow> launch" where
  "dispatch_launch os w req route =
     (let request_target = rq_target req;
          (script_name, query_string) =
            (case find_char CHR ''?'' request_target of
               Some qp \<Rightarrow> (substr request_target 0 qp, drop (qp + 1) request_target)
             | None \<Rightarrow> (request_target, []));
          script_path = rc_root route @ script_target req route;
          env =
            [''GATEWAY_INTERFACE=CGI/1.1'',
             ''SERVER_PROTOCOL='' @ rq_protocol req,
             ''SERVER_NAME='' @ get_header_value req ''host'',
             ''REQUEST_METHOD='' @ rq_method req,
             ''SCRIPT_NAME='' @ script_name,
             ''PATH_INFO='' @ request_target,
             ''REQUEST_URI='' @ request_target,
             ''QUERY_STRING='' @ query_string,
             ''CONTENT_TYPE='' @ get_header_value req ''content-type'',
             ''CONTENT_LENGTH='' @ get_header_value req ''content-length'']
            @ header_variables (rq_headers req)
            @ [''SCRIPT_FILENAME='' @ script_path, ''REDIRECT_STATUS=200''];
          script = resolved os w script_path
      in \<lparr>ln_program = resolved os w (rc_cgi_path route), ln_script = script, ln_env = env,
          ln_dir = script_directory script, ln_stdin = []\<rparr>)"

text \<open>The 500 response of the two failure branches.\<close>

definition dispatch_failed ::
  "'w sys \<Rightarrow> int \<Rightarrow> client \<Rightarrow> server_config \<Rightarrow> nat \<Rightarrow> server \<Rightarrow> 'w \<Rightarrow> server" where
  "dispatch_failed os key c conf idx s w =
     (let err = set_header ''Connection'' ''close'' (error_500 os w (get_error_page 500 conf));
          c = clear_buffer (set_response (to_string err) c)
      in put_client key c (s\<lparr>sv_poll := (sv_poll s)[idx := or_event POLLOUT (sv_poll s ! idx)]\<rparr>))"

definition request_chunked :: "request \<Rightarrow> bool" where
  "request_chunked req \<longleftrightarrow> te_chunked (get_header_value req ''transfer-encoding'')"

definition request_length :: "request \<Rightarrow> size_t" where
  "request_length req =
     (let cl_str = get_header_value req ''content-length''
      in if cl_str = [] then 0 else atol_size (c_str cl_str))"

text \<open>The object after \<open>start_cgi\<close>, the bytes to write and whether the body is complete.\<close>

definition prepare_cgi :: "int \<Rightarrow> int \<Rightarrow> int \<Rightarrow> client \<Rightarrow> client \<times> string \<times> bool" where
  "prepare_cgi pid stdin_w stdout_r c =
     (let req = cl_request c;
          cl = request_length req;
          chunked = request_chunked req;
          body_to_write = rq_body req;
          body_complete = ((\<not> chunked \<and> cl = 0) \<or> (\<not> chunked \<and> unat cl \<le> length body_to_write));
          c = (start_cgi pid stdin_w stdout_r c)\<lparr>cl_body_length := cl\<rparr>
      in if chunked then
           let c = init_cgi_chunk_decoder (get_chunked_state req) (rq_chunk_remaining req)
                     (c\<lparr>cl_chunked := True\<rparr>);
               leftover = rq_buffer req
           in if leftover \<noteq> [] then
                let (ok, c, decoded, chunk_eof) = decode_chunked_for_cgi leftover c
                in (c, if decoded \<noteq> [] then body_to_write @ decoded else body_to_write,
                    if chunk_eof then True else body_complete)
              else (c, body_to_write, body_complete)
         else (c, body_to_write, body_complete))"

text \<open>The first write to the script's input: what the pipe does not take is queued, and the input is
  closed when the whole body is written.\<close>

definition feed_cgi :: "'w net \<Rightarrow> int \<Rightarrow> string \<Rightarrow> bool \<Rightarrow> client \<Rightarrow> 'w \<Rightarrow> client \<times> 'w" where
  "feed_cgi net stdin_w body_to_write body_complete c w =
     (let (written_so_far, w) =
            (if body_to_write \<noteq> [] then nt_write net stdin_w body_to_write w else (0, w));
          c = add_cgi_body_bytes_forwarded (length body_to_write) c;
          c = (if body_to_write \<noteq> [] \<and> written_so_far < length body_to_write
               then append_cgi_stdin_pending (drop written_so_far body_to_write) c else c)
      in if \<not> body_complete then (c, w)
         else if is_cgi_stdin_pending_empty c then
           let (fds, c) = close_cgi_stdin c in (c, close_all net fds w)
         else (c\<lparr>cl_stdin_eof := True\<rparr>, w))"

text \<open>The entries of the script's descriptors.\<close>

definition register_cgi :: "int \<Rightarrow> bool \<Rightarrow> client \<Rightarrow> server \<Rightarrow> server" where
  "register_cgi stdout_r body_complete c s =
     (let s = s\<lparr>sv_cgi_out := map_put stdout_r (cl_fd c) (sv_cgi_out s),
                sv_poll := sv_poll s @ [poll_entry stdout_r POLLIN]\<rparr>;
          stored = cl_cgi_stdin_fd c
      in if stored \<noteq> - 1 \<and> (\<not> body_complete \<or> \<not> is_cgi_stdin_pending_empty c)
         then s\<lparr>sv_cgi_in := map_put stored (cl_fd c) (sv_cgi_in s),
                sv_poll := sv_poll s @ [poll_entry stored POLLOUT]\<rparr>
         else s)"

definition dispatch_cgi ::
  "'w sys \<Rightarrow> 'w net \<Rightarrow> int \<Rightarrow> client \<Rightarrow> nat \<Rightarrow> server \<Rightarrow> 'w \<Rightarrow> server \<times> 'w" where
  "dispatch_cgi os net key c idx s w =
     (let conf = conf_of s c;
          req = cl_request c;
          uri = (case find_char CHR ''?'' (rq_target req) of
                   Some qpos \<Rightarrow> substr (rq_target req) 0 qpos | None \<Rightarrow> rq_target req)
      in case match_route uri conf of
        None \<Rightarrow> (put_client key c s, w)
      | Some route \<Rightarrow>
         (case nt_pipe net w of
            (None, w) \<Rightarrow> (dispatch_failed os key c conf idx s w, w)
          | (Some (stdin_r, stdin_w), w) \<Rightarrow>
             (case nt_pipe net w of
                (None, w) \<Rightarrow> (dispatch_failed os key c conf idx s w, w)
              | (Some (stdout_r, stdout_w), w) \<Rightarrow>
                 (case nt_fork net (dispatch_launch os w req route) w of
                    (None, w) \<Rightarrow>
                      let w = close_all net [stdin_r, stdin_w, stdout_r, stdout_w] w
                      in (dispatch_failed os key c conf idx s w, w)
                  | (Some pid, w) \<Rightarrow>
                      let w = close_all net [stdin_r, stdout_w] w;
                          (c, body_to_write, body_complete) = prepare_cgi pid stdin_w stdout_r c;
                          (c, w) = feed_cgi net stdin_w body_to_write body_complete c w
                      in (put_client key c (register_cgi stdout_r body_complete c s), w)))))"

end
