(* ===== verification/ServerLoop.thy ===== *)
theory ServerLoop
  imports ServerCgi
begin

text \<open>
  The event loop of \<open>src/src/Server.cpp\<close>: reading from clients (\<open>handle_client_read\<close>), sending to them
  (\<open>handle_poll_output\<close>), the two dispatchers on \<open>revents\<close>, the scan over the \<open>poll\<close> vector with its
  index, the timeout scan and one turn of \<open>start\<close>. The scan and \<open>start\<close> itself are partial functions:
  \<open>None\<close> where an index leaves its vector, or where they do not end.
\<close>

section \<open>Body bytes for a running script\<close>

text \<open>Closing the input of a script when nothing is queued, else marking the end of the body.\<close>

definition end_cgi_input :: "client \<Rightarrow> int list \<times> client" where
  "end_cgi_input c =
     (let c = c\<lparr>cl_stdin_eof := True\<rparr> in
      if is_cgi_stdin_pending_empty c then close_cgi_stdin c else ([], c))"

text \<open>The write of decoded or raw bytes, with the queue and the \<open>poll\<close> entry for what is left.\<close>

definition forward_bytes ::
  "'w net \<Rightarrow> int \<Rightarrow> string \<Rightarrow> client \<Rightarrow> server \<Rightarrow> 'w \<Rightarrow> client \<times> server \<times> 'w" where
  "forward_bytes net stdin_fd fwd c s w =
     (if fwd = [] then (c, s, w)
      else let (sent, w) = nt_write net stdin_fd fwd w in
        if sent < length fwd then
          let c = append_cgi_stdin_pending (drop sent fwd) c;
              s = (if map_of (sv_cgi_in s) stdin_fd = None
                   then s\<lparr>sv_cgi_in := map_put stdin_fd (cl_fd c) (sv_cgi_in s),
                          sv_poll := sv_poll s @ [poll_entry stdin_fd POLLOUT]\<rparr>
                   else s\<lparr>sv_poll := enable_fd stdin_fd POLLOUT (sv_poll s)\<rparr>)
          in (c, s, w)
        else (c, s, w))"

text \<open>The end of the body has been seen: close the input and forget its entry, or mark the end.\<close>

definition body_ended ::
  "'w net \<Rightarrow> int \<Rightarrow> client \<Rightarrow> server \<Rightarrow> 'w \<Rightarrow> client \<times> server \<times> 'w" where
  "body_ended net stdin_fd c s w =
     (if is_cgi_stdin_pending_empty c then
        let (fds, c) = close_cgi_stdin c
        in (c, s\<lparr>sv_cgi_in := map_erase stdin_fd (sv_cgi_in s),
                 sv_poll := erase_fd stdin_fd (sv_poll s)\<rparr>, close_all net fds w)
      else (c\<lparr>cl_stdin_eof := True\<rparr>, s, w))"

definition body_length_reached :: "client \<Rightarrow> bool" where
  "body_length_reached c \<longleftrightarrow> 0 < cl_body_length c \<and> cl_body_length c \<le> cl_body_forwarded c"

text \<open>What one turn of the loop does with the bytes it read; the flag tells whether the loop goes on.\<close>

definition forward_read ::
  "'w net \<Rightarrow> string \<Rightarrow> client \<Rightarrow> server \<Rightarrow> 'w \<Rightarrow> bool \<times> client \<times> server \<times> 'w" where
  "forward_read net bytes c s w =
     (let c = update_activity (nt_now net w) c;
          stdin_fd = cl_cgi_stdin_fd c
      in if stdin_fd = - 1 then (False, c, s, w)
         else if cl_chunked c then
           (case decode_chunked_for_cgi bytes c of
              (False, c, decoded, eof) \<Rightarrow>
                (let (fds, c) = end_cgi_input c in (False, c, s, close_all net fds w))
            | (True, c, decoded, chunk_eof) \<Rightarrow>
                let (c, s, w) = forward_bytes net stdin_fd decoded c s w in
                if chunk_eof then (False, body_ended net stdin_fd c s w) else (True, c, s, w))
         else
           let c = add_cgi_body_bytes_forwarded (length bytes) c;
               (c, s, w) = forward_bytes net stdin_fd bytes c s w
           in if body_length_reached c then (False, body_ended net stdin_fd c s w) else (True, c, s, w))"

function cgi_read_loop ::
  "'w net \<Rightarrow> nat \<Rightarrow> nat \<Rightarrow> client \<Rightarrow> server \<Rightarrow> 'w \<Rightarrow> client \<times> server \<times> 'w" where
  "cgi_read_loop net idx total_read c s w =
     (if FAIR_IO_LIMIT \<le> total_read then (c, s, w)
      else if CGI_BACKPRESSURE_LIMIT < cgi_stdin_pending_size c
      then (c, s\<lparr>sv_poll := (sv_poll s)[idx := drop_event POLLIN (sv_poll s ! idx)]\<rparr>, w)
      else case nt_read net (cl_fd c) w of
        (Eof, w) \<Rightarrow> (let (fds, c) = end_cgi_input c in (c, s, close_all net fds w))
      | (Again, w) \<Rightarrow> (c, s, w)
      | (Broken, w) \<Rightarrow> (let (fds, c) = end_cgi_input c in (c, s, close_all net fds w))
      | (Got b bs, w) \<Rightarrow>
          (case forward_read net (b # bs) c s w of
             (True, c, s, w) \<Rightarrow> cgi_read_loop net idx (total_read + length (b # bs)) c s w
           | (False, c, s, w) \<Rightarrow> (c, s, w)))"
  by pat_completeness auto
termination
  by (relation "measure (\<lambda>(net, idx, total_read, c, s, w). FAIR_IO_LIMIT - total_read)") auto

declare cgi_read_loop.simps [simp del]

section \<open>Requests\<close>

text \<open>The body limit found by looking at the request line in the raw buffer.\<close>

definition peek_max_body :: "string \<Rightarrow> server_config \<Rightarrow> size_t" where
  "peek_max_body buf conf =
     (case find_char SP buf of
        None \<Rightarrow> sc_client_max_body_size conf
      | Some sp1 \<Rightarrow>
         (case find_char_from SP buf (sp1 + 1) of
            None \<Rightarrow> sc_client_max_body_size conf
          | Some sp2 \<Rightarrow>
              let peek_uri = substr buf (sp1 + 1) (sp2 - sp1 - 1);
                  peek_uri = (case find_char CHR ''?'' peek_uri of
                                Some qp \<Rightarrow> substr peek_uri 0 qp | None \<Rightarrow> peek_uri)
              in case match_route peek_uri conf of
                   Some route \<Rightarrow> if rc_has_client_max_body_size route
                                 then rc_client_max_body_size route else sc_client_max_body_size conf
                 | None \<Rightarrow> sc_client_max_body_size conf))"

text \<open>The part before \<open>parse\<close>: \<open>None\<close> while the head is incomplete, else the data to parse.\<close>

definition take_input :: "server_config \<Rightarrow> string \<Rightarrow> client \<Rightarrow> client \<times> string option" where
  "take_input conf bytes c =
     (if \<not> cl_request_started c then
        let c = append_to_buffer bytes c in
        if \<not> has_complete_header c then (c, None)
        else let new_data = cl_buffer c;
                 c = c\<lparr>cl_request := set_max_body_size (peek_max_body new_data conf) (cl_request c),
                       cl_request_started := True\<rparr>
             in (clear_raw_buffer c, Some new_data)
      else (c, Some bytes))"

definition target_path :: "request \<Rightarrow> string" where
  "target_path req =
     (case find_char CHR ''?'' (rq_target req) of
        Some qp \<Rightarrow> substr (rq_target req) 0 qp | None \<Rightarrow> rq_target req)"

definition starts_script :: "client \<Rightarrow> server_config \<Rightarrow> bool" where
  "starts_script c conf \<longleftrightarrow>
     is_headers_done (cl_request c) \<and> \<not> cl_cgi_active c \<and>
     (case match_route (target_path (cl_request c)) conf of
        None \<Rightarrow> False
      | Some route \<Rightarrow>
          cgi_route route (target_path (cl_request c)) \<and>
          method_allowed route (rq_method (cl_request c)))"

definition slash_redirect :: "string \<Rightarrow> server_config \<Rightarrow> bool" where
  "slash_redirect uri conf \<longleftrightarrow>
     uri \<noteq> [] \<and> last uri \<noteq> CHR ''/'' \<and>
     (case match_route (uri @ ''/'') conf of
        None \<Rightarrow> False
      | Some slash_route \<Rightarrow>
         (case match_route uri conf of
            None \<Rightarrow> True
          | Some route \<Rightarrow> length (rc_path route) < length (rc_path slash_route)))"

text \<open>The answer to a request that arrived completely.\<close>

definition answer_request ::
  "'w sys \<Rightarrow> 'w gateway \<Rightarrow> 'w \<Rightarrow> request \<Rightarrow> server_config \<Rightarrow> (response \<times> 'w) option" where
  "answer_request os gw w req conf =
     (let uri = target_path req in
      if slash_redirect uri conf
      then Some (set_header ''Connection'' ''close'' (redirect_301 (uri @ ''/'')), w)
      else map_option (\<lambda>(response, w). (set_header ''Connection'' ''close'' response, w))
             (handle_request os gw w req (match_route uri conf) conf))"

text \<open>The answer to a request the parser rejected.\<close>

definition reject_request :: "'w sys \<Rightarrow> 'w \<Rightarrow> request \<Rightarrow> server_config \<Rightarrow> response" where
  "reject_request os w req conf =
     set_header ''Connection'' ''close''
       (if rq_body_too_large req then error_413 os w (get_error_page 413 conf)
        else error_400 os w (get_error_page 400 conf))"

definition handle_input ::
  "'w sys \<Rightarrow> 'w net \<Rightarrow> 'w gateway \<Rightarrow> int \<Rightarrow> client \<Rightarrow> string \<Rightarrow> nat \<Rightarrow> server \<Rightarrow> 'w \<Rightarrow>
     (server \<times> 'w) option" where
  "handle_input os net gw key c bytes idx s w =
     (let conf = conf_of s c in
      case take_input conf bytes c of
        (c, None) \<Rightarrow> Some (put_client key c s, w)
      | (c, Some new_data) \<Rightarrow>
          let (complete, req) = parse (cl_request c) new_data;
              c = c\<lparr>cl_request := req\<rparr>;
              c = (if cl_request_started c then clear_raw_buffer c else c)
          in if is_error req then
               let c = clear_buffer (set_response (to_string (reject_request os w req conf)) c)
               in Some (put_client key c
                          (s\<lparr>sv_poll := (sv_poll s)[idx := (sv_poll s ! idx)\<lparr>pf_events := {POLLOUT}\<rparr>]\<rparr>), w)
             else if starts_script c conf then Some (dispatch_cgi os net key c idx s w)
             else if \<not> complete then Some (put_client key c s, w)
             else case answer_request os gw w req conf of
                    None \<Rightarrow> None
                  | Some (response, w) \<Rightarrow>
                      let c = clear_buffer (set_response (to_string response) c)
                      in Some (put_client key c
                                 (s\<lparr>sv_poll := (sv_poll s)[idx := or_event POLLOUT (sv_poll s ! idx)]\<rparr>), w))"

definition handle_client_read ::
  "'w sys \<Rightarrow> 'w net \<Rightarrow> 'w gateway \<Rightarrow> nat \<Rightarrow> server \<Rightarrow> 'w \<Rightarrow> (nat \<times> server \<times> 'w) option" where
  "handle_client_read os net gw idx s w =
     (if length (sv_poll s) \<le> idx then None
      else let key = pf_fd (sv_poll s ! idx) in
        case get_client s key of
          None \<Rightarrow> Some (idx + 1, s, w)
        | Some c \<Rightarrow>
            if cl_cgi_active c then
              let (c, s, w) = cgi_read_loop net idx 0 c s w in Some (idx, put_client key c s, w)
            else
              let c = update_activity (nt_now net w) c;
                  s = put_client key c s
              in case nt_read net (cl_fd c) w of
                   (Eof, w) \<Rightarrow> map_option (\<lambda>(s, w). (idx, s, w)) (remove_client net idx s w)
                 | (Broken, w) \<Rightarrow> map_option (\<lambda>(s, w). (idx, s, w)) (remove_client net idx s w)
                 | (Again, w) \<Rightarrow> Some (idx, s, w)
                 | (Got b bs, w) \<Rightarrow>
                     map_option (\<lambda>(s, w). (idx, s, w)) (handle_input os net gw key c (b # bs) idx s w))"

section \<open>Sending\<close>

text \<open>How the send loop of a script's output ended: nothing to do now, or the client is to go.\<close>

datatype send_exit = Keep | Disconnect

definition resume_output :: "client \<Rightarrow> pollfd list \<Rightarrow> pollfd list" where
  "resume_output c p =
     (if cl_cgi_active c \<and> cgi_send_pending_size c < CGI_BACKPRESSURE_LIMIT \<and> cl_cgi_stdout_fd c \<noteq> - 1
      then enable_fd (cl_cgi_stdout_fd c) POLLIN p else p)"

function send_loop ::
  "'w net \<Rightarrow> int \<Rightarrow> nat \<Rightarrow> nat \<Rightarrow> client \<Rightarrow> pollfd list \<Rightarrow> 'w \<Rightarrow> send_exit \<times> client \<times> pollfd list \<times> 'w" where
  "send_loop net fd idx total_sent c p w =
     (if FAIR_IO_LIMIT \<le> total_sent then (Keep, c, p, w)
      else if cgi_send_pending_size c = 0 then
        let p' = p[idx := drop_event POLLOUT (p ! idx)] in
        if \<not> cl_cgi_active c then (Disconnect, clear_response c, p', w) else (Keep, c, p', w)
      else case nt_send net fd (cgi_send_queue c) w of
        (Send_Again, w) \<Rightarrow> (Keep, c, p, w)
      | (Send_Failed, w) \<Rightarrow> (Disconnect, c, p, w)
      | (Sent n, w) \<Rightarrow>
          let c = update_activity (nt_now net w) (consume_cgi_send_pending (Suc n) c)
          in send_loop net fd idx (total_sent + Suc n) c (resume_output c p) w)"
  by pat_completeness auto
termination
  by (relation "measure (\<lambda>(net, fd, idx, total_sent, c, p, w). FAIR_IO_LIMIT - total_sent)") auto

declare send_loop.simps [simp del]

definition send_response ::
  "'w net \<Rightarrow> int \<Rightarrow> client \<Rightarrow> nat \<Rightarrow> server \<Rightarrow> 'w \<Rightarrow> (bool \<times> server \<times> 'w) option" where
  "send_response net key c idx s w =
     (let total_len = length (cl_response c) in
      case nt_send net (cl_fd c) (drop (cl_response_offset c) (cl_response c)) w of
        (Send_Again, w) \<Rightarrow> map_option (\<lambda>(s, w). (True, s, w)) (remove_client net idx s w)
      | (Send_Failed, w) \<Rightarrow> map_option (\<lambda>(s, w). (True, s, w)) (remove_client net idx s w)
      | (Sent n, w) \<Rightarrow>
          let c = update_activity (nt_now net w) (advance_response_offset (Suc n) c) in
          if total_len \<le> cl_response_offset c then
            let s = put_client key (clear_response c)
                      (s\<lparr>sv_poll := (sv_poll s)[idx := drop_event POLLOUT (sv_poll s ! idx)]\<rparr>)
            in map_option (\<lambda>(s, w). (True, s, w)) (remove_client net idx s w)
          else Some (False, put_client key c s, w))"

definition handle_poll_output ::
  "'w net \<Rightarrow> nat \<Rightarrow> server \<Rightarrow> 'w \<Rightarrow> (bool \<times> nat \<times> server \<times> 'w) option" where
  "handle_poll_output net idx s w =
     (if length (sv_poll s) \<le> idx then None
      else if POLLOUT \<notin> pf_revents (sv_poll s ! idx) then Some (False, idx, s, w)
      else let fd = pf_fd (sv_poll s ! idx) in
        if isCgiStdinFd s fd then
          map_option (\<lambda>(idx, s, w). (True, idx, s, w)) (handle_cgi_stdin_writable net idx s w)
        else case get_client s fd of
          None \<Rightarrow> Some (False, idx, s, w)
        | Some c \<Rightarrow>
            if cl_cgi_active c \<or> 0 < cgi_send_pending_size c \<or> cl_headers_sent c then
              let (exit, c, p, w) = send_loop net fd idx 0 c (sv_poll s) w;
                  s = put_client fd c (s\<lparr>sv_poll := p\<rparr>)
              in case exit of
                   Keep \<Rightarrow> Some (False, idx, s, w)
                 | Disconnect \<Rightarrow> map_option (\<lambda>(s, w). (True, idx, s, w)) (remove_client net idx s w)
            else if cl_response c = [] then Some (False, idx, s, w)
            else map_option (\<lambda>(b, s, w). (b, idx, s, w)) (send_response net fd c idx s w))"

section \<open>Dispatch on the events of one entry\<close>

definition handle_poll_errors ::
  "'w net \<Rightarrow> nat \<Rightarrow> server \<Rightarrow> 'w \<Rightarrow> (bool \<times> server \<times> 'w) option" where
  "handle_poll_errors net idx s w =
     (if length (sv_poll s) \<le> idx then None
      else if pf_revents (sv_poll s ! idx) \<inter> {POLLHUP, POLLERR, POLLNVAL} = {} then Some (False, s, w)
      else let fd = pf_fd (sv_poll s ! idx) in
        if isListeningSocket s fd then Some (False, s, w)
        else if isCgiFd s fd then Some (False, s, w)
        else if isCgiStdinFd s fd then
          let s' = s\<lparr>sv_cgi_in := map_erase fd (sv_cgi_in s)\<rparr>;
              w = nt_close net fd w;
              (s', w) =
                (case map_of (sv_cgi_in s) fd of
                   None \<Rightarrow> (s', w)
                 | Some key \<Rightarrow>
                    (case get_client s key of
                       None \<Rightarrow> (s', w)
                     | Some c \<Rightarrow>
                         let (fds, c) = close_cgi_stdin c in (put_client key c s', close_all net fds w)))
          in Some (True, s'\<lparr>sv_poll := erase_at idx (sv_poll s')\<rparr>, w)
        else map_option (\<lambda>(s, w). (True, s, w)) (remove_client net idx s w))"

definition handle_poll_input ::
  "'w sys \<Rightarrow> 'w net \<Rightarrow> 'w gateway \<Rightarrow> nat \<Rightarrow> server \<Rightarrow> 'w \<Rightarrow> (bool \<times> nat \<times> server \<times> 'w) option" where
  "handle_poll_input os net gw idx s w =
     (if length (sv_poll s) \<le> idx then None
      else let fd = pf_fd (sv_poll s ! idx); revents = pf_revents (sv_poll s ! idx) in
        if POLLIN \<notin> revents then
          (if POLLHUP \<in> revents \<and> isCgiFd s fd
           then map_option (\<lambda>(idx, s, w). (True, idx, s, w)) (handle_cgi_output os net idx s w)
           else Some (False, idx, s, w))
        else if isListeningSocket s fd
        then map_option (\<lambda>(s, w). (False, idx, s, w)) (accept_client net fd s w)
        else if isCgiStdinFd s fd then Some (True, idx + 1, s, w)
        else if isCgiFd s fd
        then map_option (\<lambda>(idx, s, w). (True, idx, s, w)) (handle_cgi_output os net idx s w)
        else map_option (\<lambda>(idx, s, w). (False, idx, s, w)) (handle_client_read os net gw idx s w))"

text \<open>One turn of the scan over the vector: the three handlers, then clearing \<open>revents\<close>.\<close>

definition scan_turn ::
  "'w sys \<Rightarrow> 'w net \<Rightarrow> 'w gateway \<Rightarrow> nat \<Rightarrow> server \<Rightarrow> 'w \<Rightarrow> (nat \<times> server \<times> 'w) option" where
  "scan_turn os net gw idx s w =
     (case handle_poll_errors net idx s w of
        None \<Rightarrow> None
      | Some (True, s, w) \<Rightarrow> Some (idx, s, w)
      | Some (False, s, w) \<Rightarrow>
         (case handle_poll_input os net gw idx s w of
            None \<Rightarrow> None
          | Some (True, idx, s, w) \<Rightarrow> Some (idx, s, w)
          | Some (False, idx, s, w) \<Rightarrow>
             (case handle_poll_output net idx s w of
                None \<Rightarrow> None
              | Some (True, idx, s, w) \<Rightarrow> Some (idx, s, w)
              | Some (False, idx, s, w) \<Rightarrow>
                  if length (sv_poll s) \<le> idx then None
                  else Some (idx + 1, s\<lparr>sv_poll := (sv_poll s)[idx := (sv_poll s ! idx)\<lparr>pf_revents := {}\<rparr>]\<rparr>, w))))"

partial_function (option) scan ::
  "'w sys \<Rightarrow> 'w net \<Rightarrow> 'w gateway \<Rightarrow> nat \<Rightarrow> server \<Rightarrow> 'w \<Rightarrow> (server \<times> 'w) option" where
  "scan os net gw idx s w =
     (if length (sv_poll s) \<le> idx then Some (s, w)
      else case scan_turn os net gw idx s w of
             None \<Rightarrow> None
           | Some (idx, s, w) \<Rightarrow> scan os net gw idx s w)"

section \<open>Timeouts and the loop\<close>

function timeout_scan ::
  "'w net \<Rightarrow> int \<Rightarrow> nat \<Rightarrow> server \<Rightarrow> 'w \<Rightarrow> (server \<times> 'w) option" where
  "timeout_scan net now i s w =
     (if length (sv_poll s) \<le> i then Some (s, w)
      else let fd = pf_fd (sv_poll s ! i) in
        if isListeningSocket s fd then timeout_scan net now (i + 1) s w
        else case get_client s fd of
          None \<Rightarrow> timeout_scan net now (i + 1) s w
        | Some c \<Rightarrow>
            if CLIENT_TIMEOUT < now - cl_last_activity c then
              (case remove_client net i s w of
                 None \<Rightarrow> None
               | Some (s, w) \<Rightarrow> timeout_scan net now i s w)
            else timeout_scan net now (i + 1) s w)"
  by pat_completeness auto
termination
  by (relation "measure (\<lambda>(net, now, i, s, w). length (sv_poll s) - i)")
     (auto dest!: remove_client_less)

declare timeout_scan.simps [simp del]

text \<open>One turn of \<open>start\<close>: \<open>Inl\<close> where the loop is left, \<open>Inr\<close> where it goes on.\<close>

definition set_revents :: "poll_bit set list \<Rightarrow> pollfd list \<Rightarrow> pollfd list" where
  "set_revents rs ps =
     map (\<lambda>i. (ps ! i)\<lparr>pf_revents := (if i < length rs then rs ! i else {})\<rparr>) [0..<length ps]"

definition serve_round ::
  "'w sys \<Rightarrow> 'w net \<Rightarrow> 'w gateway \<Rightarrow> server \<Rightarrow> 'w \<Rightarrow> ((server \<times> 'w) + (server \<times> 'w)) option" where
  "serve_round os net gw s w =
     (if \<not> nt_looping net w then Some (Inl (s, w))
      else case nt_poll net (sv_poll s) w of
        (Poll_Interrupted, w) \<Rightarrow> Some (Inr (s, w))
      | (Poll_Failed, w) \<Rightarrow> Some (Inl (s, w))
      | (Polled revents, w) \<Rightarrow>
         (case scan os net gw 0 (s\<lparr>sv_poll := set_revents revents (sv_poll s)\<rparr>) w of
            None \<Rightarrow> None
          | Some (s, w) \<Rightarrow>
              map_option Inr (timeout_scan net (nt_now net w) 0 s w)))"

partial_function (option) start_loop ::
  "'w sys \<Rightarrow> 'w net \<Rightarrow> 'w gateway \<Rightarrow> server \<Rightarrow> 'w \<Rightarrow> (server \<times> 'w) option" where
  "start_loop os net gw s w =
     (case serve_round os net gw s w of
        None \<Rightarrow> None
      | Some (Inl res) \<Rightarrow> Some res
      | Some (Inr (s, w)) \<Rightarrow> start_loop os net gw s w)"

definition start_server ::
  "'w sys \<Rightarrow> 'w net \<Rightarrow> 'w gateway \<Rightarrow> server \<Rightarrow> 'w \<Rightarrow> (server \<times> 'w) option" where
  "start_server os net gw s w = (if \<not> sv_init_ok s then Some (s, w) else start_loop os net gw s w)"

end
