(* ===== verification/ServerInv.thy ===== *)
theory ServerInv
  imports ServerLoop ConnectionProps
begin

text \<open>
  The invariant of the server object (\<open>src/src/Server.cpp\<close>): every client is stored under its own
  descriptor with a configuration that exists and with offsets inside its buffers, and the listening
  sockets are in the order of the configurations. Every handler preserves it, so it holds in every
  state the event loop reaches. The kernel is assumed to take no more bytes than it was offered.
\<close>

section \<open>The invariant\<close>

definition client_ok :: "nat \<Rightarrow> int \<Rightarrow> client \<Rightarrow> bool" where
  "client_ok n key c \<longleftrightarrow>
     cl_fd c = key \<and> cl_server_index c < n \<and> stdin_queue_ok c \<and> send_queue_ok c \<and>
     (cl_response c = [] \<or> cl_response_offset c < length (cl_response c))"

definition sockets_ok :: "server \<Rightarrow> bool" where
  "sockets_ok s \<longleftrightarrow> length (sv_sockets s) \<le> length (sv_configs s) \<and>
     (\<forall>i < length (sv_sockets s). ss_index (sv_sockets s ! i) = i)"

definition server_inv :: "server \<Rightarrow> bool" where
  "server_inv s \<longleftrightarrow>
     ordered_map (sv_clients s) \<and> sockets_ok s \<and>
     (\<forall>key c. map_of (sv_clients s) key = Some c \<longrightarrow> client_ok (length (sv_configs s)) key c)"

text \<open>Documented behaviour of \<open>write\<close> and \<open>send\<close>: they take at most the bytes they are given.\<close>

definition net_ok :: "'w net \<Rightarrow> bool" where
  "net_ok net \<longleftrightarrow>
     (\<forall>fd b w. fst (nt_write net fd b w) \<le> length b) \<and>
     (\<forall>fd b w n. b \<noteq> [] \<longrightarrow> fst (nt_send net fd b w) = Sent n \<longrightarrow> Suc n \<le> length b)"

lemma net_ok_write: "net_ok net \<Longrightarrow> nt_write net fd b w = (n, w') \<Longrightarrow> n \<le> length b"
  by (metis fst_conv net_ok_def)

lemma net_ok_send: "net_ok net \<Longrightarrow> nt_send net fd b w = (Sent n, w') \<Longrightarrow> b \<noteq> [] \<Longrightarrow> Suc n \<le> length b"
  by (metis fst_conv net_ok_def)

section \<open>Client operations\<close>

named_theorems client_simps "client operations under client_ok"

lemma client_ok_neutral [client_simps]:
  "client_ok n k (update_activity t c) = client_ok n k c"
  "client_ok n k (append_to_buffer b c) = client_ok n k c"
  "client_ok n k (clear_buffer c) = client_ok n k c"
  "client_ok n k (clear_raw_buffer c) = client_ok n k c"
  "client_ok n k (append_cgi_output b c) = client_ok n k c"
  "client_ok n k (add_cgi_body_bytes_forwarded m c) = client_ok n k c"
  "client_ok n k (init_cgi_chunk_decoder st r c) = client_ok n k c"
  "client_ok n k (c\<lparr>cl_request := q\<rparr>) = client_ok n k c"
  "client_ok n k (c\<lparr>cl_request_started := b1\<rparr>) = client_ok n k c"
  "client_ok n k (c\<lparr>cl_headers_sent := b1\<rparr>) = client_ok n k c"
  "client_ok n k (c\<lparr>cl_stdin_eof := b1\<rparr>) = client_ok n k c"
  "client_ok n k (c\<lparr>cl_chunked := b1\<rparr>) = client_ok n k c"
  "client_ok n k (c\<lparr>cl_body_length := l\<rparr>) = client_ok n k c"
  "client_ok n k (c\<lparr>cl_cgi_stdout_fd := f\<rparr>) = client_ok n k c"
  "client_ok n k (c\<lparr>cl_cgi_active := b1\<rparr>) = client_ok n k c"
  "client_ok n k (c\<lparr>cl_chunk_state := cs\<rparr>) = client_ok n k c"
  "client_ok n k (c\<lparr>cl_chunk_remaining := cr\<rparr>) = client_ok n k c"
  "client_ok n k (c\<lparr>cl_chunk_buf := cb\<rparr>) = client_ok n k c"
  by (simp_all add: client_ok_def stdin_queue_ok_def send_queue_ok_def update_activity_def
      append_to_buffer_def clear_buffer_def clear_raw_buffer_def append_cgi_output_def
      add_cgi_body_bytes_forwarded_def init_cgi_chunk_decoder_def)

lemma client_ok_response [client_simps]:
  "client_ok n k c \<Longrightarrow> client_ok n k (set_response r c)"
  "client_ok n k c \<Longrightarrow> client_ok n k (clear_response c)"
  by (simp_all add: client_ok_def stdin_queue_ok_def send_queue_ok_def set_response_def clear_response_def)

lemma client_ok_queues [client_simps]:
  "client_ok n k c \<Longrightarrow> client_ok n k (append_cgi_stdin_pending b c)"
  "client_ok n k c \<Longrightarrow> client_ok n k (append_cgi_send_pending b c)"
  by (simp_all add: client_ok_def stdin_queue_ok_def send_queue_ok_def append_cgi_stdin_pending_def
      append_cgi_send_pending_def)

lemma client_ok_consume_stdin:
  "client_ok n k c \<Longrightarrow> m \<le> length (cgi_stdin_queue c) \<Longrightarrow> client_ok n k (consume_cgi_stdin_pending m c)"
  using stdin_queue.pop_valid [of c m]
  by (auto simp: client_ok_def consume_cgi_stdin_pending_def Let_def send_queue_ok_def)

lemma client_ok_consume_send:
  "client_ok n k c \<Longrightarrow> m \<le> length (cgi_send_queue c) \<Longrightarrow> client_ok n k (consume_cgi_send_pending m c)"
  using send_queue.pop_valid [of c m]
  by (auto simp: client_ok_def consume_cgi_send_pending_def Let_def stdin_queue_ok_def)

lemma client_ok_start [client_simps]: "client_ok n k c \<Longrightarrow> client_ok n k (start_cgi p i out c)"
  by (simp add: client_ok_def stdin_queue_ok_def send_queue_ok_def start_cgi_def)

lemma client_ok_close [client_simps]:
  "close_cgi_stdin c = (fds, c') \<Longrightarrow> client_ok n k c' = client_ok n k c"
  by (auto simp: close_cgi_stdin_def client_ok_def stdin_queue_ok_def send_queue_ok_def split: if_splits)

lemma client_ok_finish [client_simps]:
  "finish_cgi c = (fds, pids, c') \<Longrightarrow> client_ok n k c' = client_ok n k c"
  by (auto simp: finish_cgi_def close_cgi_stdin_def client_ok_def stdin_queue_ok_def
      send_queue_ok_def Let_def split: if_splits)

lemma client_ok_end_input [client_simps]:
  "end_cgi_input c = (fds, c') \<Longrightarrow> client_ok n k c' = client_ok n k c"
  by (auto simp: end_cgi_input_def Let_def client_simps split: if_splits)

lemma decode_loop_ok:
  "decode_loop c d = (ok, c', d', e) \<Longrightarrow> client_ok n k c' = client_ok n k c \<and> cl_fd c' = cl_fd c"
proof (induction rule: decode_rule)
  case (stop c d ok c' d' eof)
  then show ?case
    by (auto simp: decode_turn_def Let_def client_simps split: chunk_dec_state.splits option.splits if_splits)
next
  case (turn c d c1 d1 ok c' d' eof)
  moreover have "client_ok n k c1 = client_ok n k c \<and> cl_fd c1 = cl_fd c"
    using turn(2)
    by (auto simp: decode_turn_def Let_def client_simps split: chunk_dec_state.splits option.splits if_splits)
  ultimately show ?case by simp
qed simp

lemma client_ok_decode [client_simps]:
  "decode_chunked_for_cgi b c = (ok, c', d', e) \<Longrightarrow> client_ok n k c' = client_ok n k c"
  by (simp add: decode_chunked_for_cgi_def decode_loop_ok client_simps)

section \<open>Server operations\<close>

lemma inv_frame [simp]:
  "server_inv (s\<lparr>sv_poll := p\<rparr>) = server_inv s"
  "server_inv (s\<lparr>sv_cgi_out := m\<rparr>) = server_inv s"
  "server_inv (s\<lparr>sv_cgi_in := m\<rparr>) = server_inv s"
  by (simp_all add: server_inv_def sockets_ok_def)

lemma configs_frame [simp]:
  "sv_configs (put_client k c s) = sv_configs s"
  "sv_poll (put_client k c s) = sv_poll s"
  by (simp_all add: put_client_def)

lemma inv_client: "server_inv s \<Longrightarrow> get_client s k = Some c \<Longrightarrow> client_ok (length (sv_configs s)) k c"
  by (simp add: server_inv_def get_client_def)

lemma inv_put: "server_inv s \<Longrightarrow> client_ok (length (sv_configs s)) k c \<Longrightarrow> server_inv (put_client k c s)"
  by (simp add: server_inv_def put_client_def sockets_ok_def map_of_map_put ordered_map_put)

lemma inv_erase: "server_inv s \<Longrightarrow> server_inv (s\<lparr>sv_clients := map_erase k (sv_clients s)\<rparr>)"
  by (simp add: server_inv_def sockets_ok_def map_of_map_erase ordered_map_erase)

lemma inv_add: "server_inv s \<Longrightarrow> i < length (sv_configs s) \<Longrightarrow>
    server_inv (add_client fd i now s) \<and> sv_configs (add_client fd i now s) = sv_configs s"
  by (simp add: add_client_def server_inv_def sockets_ok_def map_of_map_put ordered_map_put
      client_ok_def new_client_def stdin_queue_ok_def send_queue_ok_def)

lemma inv_drop:
  "drop_cgi_in cl (drop_cgi_out cl (s, i)) = (s1, j) \<Longrightarrow>
     server_inv s1 = server_inv s \<and> sv_configs s1 = sv_configs s \<and> sv_clients s1 = sv_clients s"
  by (auto simp: drop_cgi_in_def drop_cgi_out_def Let_def split: if_splits prod.splits)

lemma inv_remove:
  assumes "server_inv s" and "remove_client net i s w = Some (s', w')"
  shows "server_inv s' \<and> sv_configs s' = sv_configs s"
proof (cases "get_client s (pf_fd (sv_poll s ! i))")
  case None
  with assms show ?thesis
    by (auto simp: remove_client_def Let_def inv_erase split: if_splits)
next
  case (Some cl)
  obtain s1 j where d: "drop_cgi_in cl (drop_cgi_out cl (s, i)) = (s1, j)" by (metis surj_pair)
  obtain fds pids c where f: "finish_cgi cl = (fds, pids, c)" by (metis prod_cases3)
  have "client_ok (length (sv_configs s1)) (pf_fd (sv_poll s ! i)) c"
    using inv_client [OF assms(1) Some] client_ok_finish [OF f] inv_drop [OF d] by simp
  then have "server_inv (put_client (pf_fd (sv_poll s ! i)) c s1)"
    using inv_put inv_drop [OF d] assms(1) by blast
  from inv_erase [OF this, of "pf_fd (sv_poll s ! i)"] assms(2) Some d f inv_drop [OF d]
  show ?thesis
    by (auto simp: remove_client_def Let_def split: if_splits)
qed

lemma inv_accept:
  assumes "server_inv s" and "accept_client net fd s w = Some (s', w')"
  shows "server_inv s' \<and> sv_configs s' = sv_configs s"
proof -
  have fold: "server_inv (foldl (\<lambda>s fd. add_client fd i now s) s fds) \<and>
      sv_configs (foldl (\<lambda>s fd. add_client fd i now s) s fds) = sv_configs s"
    if "server_inv s" "i < length (sv_configs s)" for i now fds s
    using that by (induction fds arbitrary: s) (auto simp: inv_add)
  define i where "i = (case find_if (\<lambda>x. ss_fd x = fd) (sv_sockets s) of
      Some i \<Rightarrow> ss_index (sv_sockets s ! i) | None \<Rightarrow> 0)"
  obtain fds where f: "nt_accept net (ss_fd (sv_sockets s ! i)) w = (fds, w')"
    and i: "i < length (sv_sockets s)"
    and s': "s' = foldl (\<lambda>s fd. add_client fd i (nt_now net w') s) s fds"
    using assms(2) by (auto simp: accept_client_def i_def [symmetric] Let_def split: if_splits prod.splits)
  have "length (sv_sockets s) \<le> length (sv_configs s)"
    using assms(1) by (simp add: server_inv_def sockets_ok_def)
  with fold [OF assms(1)] i show ?thesis unfolding s' by simp
qed

section \<open>Loops\<close>

lemma stream_output_ok:
  "stream_output conf bytes c p = (c', p') \<Longrightarrow> client_ok n k c \<Longrightarrow> client_ok n k c'"
  by (auto simp: stream_output_def Let_def client_simps split: if_splits option.splits)

lemma cgi_output_loop_ok:
  "cgi_output_loop net conf fd idx t c p w = (e, c', p', w') \<Longrightarrow> client_ok n k c \<Longrightarrow> client_ok n k c'"
proof (induction net conf fd idx t c p w rule: cgi_output_loop.induct)
  case (1 net conf fd idx t c p w)
  show ?case
  proof (cases "FAIR_IO_LIMIT \<le> t")
    case True
    with 1 show ?thesis by (simp add: cgi_output_loop.simps [of _ _ _ _ t])
  next
    case False
    obtain res w1 where r: "nt_read net fd w = (res, w1)" by (metis surj_pair)
    show ?thesis
    proof (cases res)
      case (Got b bs)
      obtain c1 p1 where s: "stream_output conf (b # bs) c p = (c1, p1)" by (metis surj_pair)
      have ok: "client_ok n k c1" using stream_output_ok [OF s 1(3)] .
      show ?thesis
      proof (cases "CGI_BACKPRESSURE_LIMIT < cgi_send_pending_size c1")
        case True
        with 1(2) False r Got s ok show ?thesis
          by (simp add: cgi_output_loop.simps [of _ _ _ _ t])
      next
        case nb: False
        have "cgi_output_loop net conf fd idx (t + length (b # bs)) c1 p1 w1 = (e, c', p', w')"
          using 1(2) False r Got s nb by (simp add: cgi_output_loop.simps [of _ _ _ _ t])
        then show ?thesis
          using 1(1) [OF False r [symmetric] Got s [symmetric] refl nb _ ok] by simp
      qed
    qed (use 1 False r in \<open>simp_all add: cgi_output_loop.simps [of _ _ _ _ t]\<close>)
  qed
qed

lemma stdin_write_loop_ok:
  "stdin_write_loop net fd t c w = (c', w') \<Longrightarrow> net_ok net \<Longrightarrow> client_ok n k c \<Longrightarrow> client_ok n k c'"
proof (induction net fd t c w rule: stdin_write_loop.induct)
  case (1 net fd t c w)
  show ?case
  proof (cases "is_cgi_stdin_pending_empty c \<or> FAIR_IO_LIMIT \<le> t")
    case True
    with 1 show ?thesis by (simp add: stdin_write_loop.simps [of _ _ t])
  next
    case False
    obtain m w1 where r: "nt_write net fd (cgi_stdin_queue c) w = (m, w1)" by (metis surj_pair)
    show ?thesis
    proof (cases "0 < m")
      case True
      have "stdin_write_loop net fd (t + m) (consume_cgi_stdin_pending m c) w1 = (c', w')"
        using 1(2) False r True by (auto simp: stdin_write_loop.simps [of _ _ t])
      moreover have "client_ok n k (consume_cgi_stdin_pending m c)"
        using client_ok_consume_stdin [OF 1(4)] net_ok_write [OF 1(3) r] .
      ultimately show ?thesis using 1(1) [OF False r [symmetric] True] 1(3) by blast
    next
      case nm: False
      with 1 False r show ?thesis by (auto simp: stdin_write_loop.simps [of _ _ t])
    qed
  qed
qed

lemma length_send_queue: "length (cgi_send_queue c) = cgi_send_pending_size c"
  by (simp add: cgi_send_queue_def cgi_send_pending_size_def length_substr)

lemma send_loop_ok:
  "send_loop net fd idx t c p w = (e, c', p', w') \<Longrightarrow> net_ok net \<Longrightarrow> client_ok n k c \<Longrightarrow> client_ok n k c'"
proof (induction net fd idx t c p w rule: send_loop.induct)
  case (1 net fd idx t c p w)
  show ?case
  proof (cases "FAIR_IO_LIMIT \<le> t")
    case True
    with 1 show ?thesis by (simp add: send_loop.simps [of _ _ _ t])
  next
    case ft: False
    show ?thesis
    proof (cases "cgi_send_pending_size c = 0")
      case True
      with 1 ft show ?thesis
        by (auto simp: send_loop.simps [of _ _ _ t] Let_def client_simps split: if_splits)
    next
      case False
      obtain res w1 where r: "nt_send net fd (cgi_send_queue c) w = (res, w1)" by (metis surj_pair)
      show ?thesis
      proof (cases res)
        case (Sent m)
        let ?c = "update_activity (nt_now net w1) (consume_cgi_send_pending (Suc m) c)"
        have ne: "cgi_send_queue c \<noteq> []" using False length_send_queue [of c] by auto
        have "Suc m \<le> length (cgi_send_queue c)"
          by (rule net_ok_send [OF 1(3) r [unfolded Sent] ne])
        then have ok: "client_ok n k ?c"
          using client_ok_consume_send [OF 1(4)] by (simp add: client_simps)
        have run: "send_loop net fd idx (t + Suc m) ?c (resume_output ?c p) w1 = (e, c', p', w')"
          using 1(2) ft False r Sent by (simp add: send_loop.simps [of _ _ _ t] Let_def)
        show ?thesis by (rule 1(1) [OF ft False r [symmetric] Sent refl run 1(3) ok])
      next
        case Send_Again
        then have "send_loop net fd idx t c p w = (Keep, c, p, w1)"
          using ft False r by (subst send_loop.simps) simp
        with 1(2,4) show ?thesis by simp
      next
        case Send_Failed
        then have "send_loop net fd idx t c p w = (Disconnect, c, p, w1)"
          using ft False r by (subst send_loop.simps) simp
        with 1(2,4) show ?thesis by simp
      qed
    qed
  qed
qed

section \<open>Removing a client\<close>

text \<open>The client at the index goes, every other one stays; where it has no script the vector loses
  exactly its entry.\<close>

lemma remove_client_others:
  assumes "remove_client net i s w = Some (s', w')"
  shows "get_client s' k = (if k = pf_fd (sv_poll s ! i) then None else get_client s k) \<and>
    sv_sockets s' = sv_sockets s"
proof (cases "get_client s (pf_fd (sv_poll s ! i))")
  case None
  with assms show ?thesis
    by (auto simp: remove_client_def Let_def get_client_def map_of_map_erase split: if_split_asm)
next
  case (Some cl)
  obtain s1 j where d: "drop_cgi_in cl (drop_cgi_out cl (s, i)) = (s1, j)" by (metis surj_pair)
  have f: "sv_clients s1 = sv_clients s" "sv_sockets s1 = sv_sockets s"
    using d by (auto simp: drop_cgi_in_def drop_cgi_out_def Let_def split: if_split_asm prod.split_asm)
  with assms Some d show ?thesis
    by (auto simp: remove_client_def Let_def get_client_def put_client_def map_of_map_erase map_of_map_put
        split: if_split_asm prod.split_asm)
qed

lemma remove_client_poll:
  assumes "remove_client net i s w = Some (s', w')"
    and "\<And>c. get_client s (pf_fd (sv_poll s ! i)) = Some c \<Longrightarrow>
      cl_cgi_stdin_fd c = - 1 \<and> cl_cgi_stdout_fd c = - 1"
  shows "sv_poll s' = erase_at i (sv_poll s)"
proof (cases "get_client s (pf_fd (sv_poll s ! i))")
  case None
  with assms(1) show ?thesis by (auto simp: remove_client_def Let_def split: if_split_asm)
next
  case (Some cl)
  with assms(2) have "drop_cgi_in cl (drop_cgi_out cl (s, i)) = (s, i)"
    by (simp add: drop_cgi_in_def drop_cgi_out_def)
  with assms(1) Some show ?thesis
    by (auto simp: remove_client_def Let_def put_client_def split: if_split_asm prod.split_asm)
qed

end
