(* ===== verification/ServerHandlers.thy ===== *)
theory ServerHandlers
  imports ServerInv
begin

text \<open>
  The invariant of the server object along its handlers: each operation of \<open>src/src/Server.cpp\<close> on the
  client table keeps it and never changes the configurations, up to a whole turn of the scan over the
  \<open>poll\<close> vector. The case rules list the ways \<open>dispatch_cgi\<close>, \<open>handle_input\<close> and a turn end.
\<close>

section \<open>Handlers\<close>

lemma inv_put_frame:
  assumes "server_inv s" and "client_ok (length (sv_configs s)) k c" and "sv_clients s' = sv_clients s"
    and "sv_sockets s' = sv_sockets s" and "sv_configs s' = sv_configs s"
  shows "server_inv (put_client k c s')"
  using assms by (simp add: server_inv_def put_client_def sockets_ok_def map_of_map_put ordered_map_put)

lemma finalize_cgi_ok:
  assumes "server_inv s" and "client_ok (length (sv_configs s)) key c"
    and "finalize_cgi os net key c idx s w = (s', w')"
  shows "server_inv s' \<and> sv_configs s' = sv_configs s"
proof -
  obtain fds pids c1 where f: "finish_cgi c = (fds, pids, c1)" by (metis prod_cases3)
  have "client_ok (length (sv_configs s)) key c1" using assms(2) client_ok_finish [OF f] by simp
  then show ?thesis
    using assms(1,3) f
    by (auto simp: finalize_cgi_def Let_def client_simps intro!: inv_put_frame split: if_split_asm)
qed

lemma handle_cgi_output_ok:
  assumes "server_inv s" and "handle_cgi_output os net idx s w = Some (i, s', w')"
  shows "server_inv s' \<and> sv_configs s' = sv_configs s"
proof (cases "get_client_by_cgi_fd s (pf_fd (sv_poll s ! idx))")
  case None
  with assms show ?thesis by (auto simp: handle_cgi_output_def Let_def split: if_split_asm)
next
  case (Some key)
  then obtain c where c: "get_client s key = Some c"
    by (auto simp: get_client_by_cgi_fd_def split: option.split_asm if_split_asm)
  obtain e c1 p1 w1 where l: "cgi_output_loop net (conf_of s c) (pf_fd (sv_poll s ! idx)) idx 0 c (sv_poll s) w
      = (e, c1, p1, w1)" by (metis prod_cases4)
  have ok: "client_ok (length (sv_configs s)) key c1"
    using cgi_output_loop_ok [OF l inv_client [OF assms(1) c]] .
  show ?thesis
  proof (cases e)
    case False
    with assms Some c l ok show ?thesis
      by (auto simp: handle_cgi_output_def Let_def intro!: inv_put_frame split: if_split_asm)
  next
    case True
    let ?c = "c1\<lparr>cl_cgi_stdout_fd := - 1\<rparr>"
    let ?s = "put_client key ?c (s\<lparr>sv_cgi_out := map_erase (pf_fd (sv_poll s ! idx)) (sv_cgi_out s),
                 sv_poll := erase_at idx p1\<rparr>)"
    have s: "server_inv ?s" using assms(1) ok by (auto simp: client_simps intro!: inv_put_frame)
    have okc: "client_ok (length (sv_configs ?s)) key ?c" using ok by (simp add: client_simps)
    from True assms(2) Some c l obtain ci w2 where
      "finalize_cgi os net key ?c ci ?s w2 = (s', w')"
      by (auto simp: handle_cgi_output_def Let_def split: if_split_asm prod.split_asm)
    from finalize_cgi_ok [OF s okc this] show ?thesis by simp
  qed
qed

lemma handle_cgi_stdin_writable_ok:
  assumes "net_ok net" and "server_inv s" and "handle_cgi_stdin_writable net idx s w = Some (i, s', w')"
  shows "server_inv s' \<and> sv_configs s' = sv_configs s"
proof (cases "\<exists>key c. map_of (sv_cgi_in s) (pf_fd (sv_poll s ! idx)) = Some key \<and> get_client s key = Some c")
  case False
  with assms show ?thesis
    by (auto simp: handle_cgi_stdin_writable_def Let_def split: if_split_asm option.split_asm)
next
  case True
  then obtain key c where k: "map_of (sv_cgi_in s) (pf_fd (sv_poll s ! idx)) = Some key"
    and c: "get_client s key = Some c" by blast
  obtain c1 w1 where l: "stdin_write_loop net (pf_fd (sv_poll s ! idx)) 0 c w = (c1, w1)" by (metis surj_pair)
  have ok: "client_ok (length (sv_configs s)) key c1"
    using stdin_write_loop_ok [OF l assms(1) inv_client [OF assms(2) c]] .
  obtain fds c2 where cl: "close_cgi_stdin c1 = (fds, c2)" by (metis surj_pair)
  have "client_ok (length (sv_configs s)) key c2" using ok client_ok_close [OF cl] by simp
  with assms k c l ok cl show ?thesis
    by (auto simp: handle_cgi_stdin_writable_def Let_def intro!: inv_put_frame split: if_split_asm)
qed

lemma prepare_cgi_ok:
  "prepare_cgi pid i out c = (c', body, done) \<Longrightarrow> client_ok n k c \<Longrightarrow> client_ok n k c'"
  by (auto simp: prepare_cgi_def Let_def client_simps split: if_split_asm prod.split_asm)

lemma dispatch_failed_ok:
  assumes "server_inv s" and "client_ok (length (sv_configs s)) key c"
  shows "server_inv (dispatch_failed os key c conf idx s w) \<and>
    sv_configs (dispatch_failed os key c conf idx s w) = sv_configs s"
  using assms by (auto simp: dispatch_failed_def Let_def client_simps intro!: inv_put_frame)

lemma feed_cgi_ok:
  "feed_cgi net fd body fin c w = (c', w') \<Longrightarrow> client_ok n k c \<Longrightarrow> client_ok n k c'"
  by (auto simp: feed_cgi_def Let_def client_simps split: if_split_asm prod.split_asm)

lemma register_cgi_frame [simp]:
  "sv_clients (register_cgi fd fin c s) = sv_clients s"
  "sv_sockets (register_cgi fd fin c s) = sv_sockets s"
  "sv_configs (register_cgi fd fin c s) = sv_configs s"
  by (simp_all add: register_cgi_def Let_def)

text \<open>The ways \<open>dispatch_cgi\<close> ends.\<close>

lemma dispatch_cgi_cases [consumes 1, case_names no_route failed started]:
  assumes "dispatch_cgi os net key c idx s w = (s', w')"
  obtains "s' = put_client key c s" and "w' = w"
  | conf w1 where "s' = dispatch_failed os key c conf idx s w1"
  | pid i out c1 body fin w1 c2 where "prepare_cgi pid i out c = (c1, body, fin)"
      and "feed_cgi net i body fin c1 w1 = (c2, w')"
      and "s' = put_client key c2 (register_cgi out fin c2 s)"
proof -
  define uri where "uri = (case find_char CHR ''?'' (rq_target (cl_request c)) of
    Some qpos \<Rightarrow> substr (rq_target (cl_request c)) 0 qpos | None \<Rightarrow> rq_target (cl_request c))"
  have d: "dispatch_cgi os net key c idx s w = (case match_route uri (conf_of s c) of
        None \<Rightarrow> (put_client key c s, w)
      | Some route \<Rightarrow>
         (case nt_pipe net w of
            (None, w) \<Rightarrow> (dispatch_failed os key c (conf_of s c) idx s w, w)
          | (Some (stdin_r, stdin_w), w) \<Rightarrow>
             (case nt_pipe net w of
                (None, w) \<Rightarrow> (dispatch_failed os key c (conf_of s c) idx s w, w)
              | (Some (stdout_r, stdout_w), w) \<Rightarrow>
                 (case nt_fork net (dispatch_launch os w (cl_request c) route) w of
                    (None, w) \<Rightarrow>
                      let w = close_all net [stdin_r, stdin_w, stdout_r, stdout_w] w
                      in (dispatch_failed os key c (conf_of s c) idx s w, w)
                  | (Some pid, w) \<Rightarrow>
                      let w = close_all net [stdin_r, stdout_w] w;
                          (c, body_to_write, body_complete) = prepare_cgi pid stdin_w stdout_r c;
                          (c, w) = feed_cgi net stdin_w body_to_write body_complete c w
                      in (put_client key c (register_cgi stdout_r body_complete c s), w)))))"
    by (simp add: dispatch_cgi_def Let_def uri_def)
  show thesis
  proof (cases "match_route uri (conf_of s c)")
    case None
    with d assms that(1) show thesis by simp
  next
    case (Some route)
    obtain p1 w1 where p1: "nt_pipe net w = (p1, w1)" by (metis surj_pair)
    obtain p2 w2 where p2: "nt_pipe net w1 = (p2, w2)" by (metis surj_pair)
    consider "p1 = None" | q where "p1 = Some q" "p2 = None" | q q' where "p1 = Some q" "p2 = Some q'"
      by (cases p1; cases p2) auto
    then show thesis
    proof cases
      case 1
      with d assms Some p1 show thesis by (intro that(2) [of "conf_of s c" w1]) simp
    next
      case (2 q)
      with d assms Some p1 p2 show thesis
        by (intro that(2) [of "conf_of s c" w2]) (simp split: prod.split_asm)
    next
      case (3 q q')
      then obtain ri wi ro wo where e: "p1 = Some (ri, wi)" "p2 = Some (ro, wo)"
        by (cases q; cases q') auto
      obtain pid w3 where f: "nt_fork net (dispatch_launch os w2 (cl_request c) route) w2 = (pid, w3)"
        by (metis surj_pair)
      show thesis
      proof (cases pid)
        case None
        with d assms Some p1 p2 e f show thesis by (intro that(2)) (auto simp: Let_def)
      next
        case pid: (Some pid)
        obtain c1 body fin where pr: "prepare_cgi pid wi ro c = (c1, body, fin)" by (metis prod_cases3)
        obtain c2 w4 where fe: "feed_cgi net wi body fin c1 (close_all net [ri, wo] w3) = (c2, w4)"
          by (metis surj_pair)
        from d assms Some p1 p2 e f pid pr fe
        have "s' = put_client key c2 (register_cgi ro fin c2 s)" "w' = w4" by (simp_all add: Let_def)
        with that(3) [OF pr] fe show thesis by blast
      qed
    qed
  qed
qed

lemma dispatch_cgi_ok:
  assumes "server_inv s" and ok: "client_ok (length (sv_configs s)) key c"
    and "dispatch_cgi os net key c idx s w = (s', w')"
  shows "server_inv s' \<and> sv_configs s' = sv_configs s"
  using assms(3)
proof (cases rule: dispatch_cgi_cases)
  case (started pid i out c1 body fin w1 c2)
  then show ?thesis
    using assms(1) feed_cgi_ok [OF started(2) prepare_cgi_ok [OF started(1) ok]]
    by (simp add: inv_put_frame)
next
  case (failed conf w1)
  then show ?thesis using dispatch_failed_ok [OF assms(1) ok] by simp
qed (simp add: inv_put assms(1) ok)

text \<open>The operations that forward a body keep everything of the server but the \<open>poll\<close> vector and the map.\<close>

definition same_clients :: "server \<Rightarrow> server \<Rightarrow> bool" where
  "same_clients s s' \<longleftrightarrow> sv_clients s' = sv_clients s \<and> sv_sockets s' = sv_sockets s \<and>
     sv_configs s' = sv_configs s"

lemma same_clients_simps [simp]:
  "same_clients s s"
  "same_clients s (s\<lparr>sv_poll := p\<rparr>)"
  "same_clients s (s\<lparr>sv_cgi_in := m\<rparr>)"
  "same_clients s (s\<lparr>sv_cgi_in := m, sv_poll := p\<rparr>)"
  by (simp_all add: same_clients_def)

lemma forward_bytes_ok:
  assumes "forward_bytes net fd fwd c s w = (c', s', w')"
  shows "(client_ok n k c \<longrightarrow> client_ok n k c') \<and> same_clients s s'"
  using assms by (auto simp: forward_bytes_def Let_def client_simps split: if_split_asm prod.split_asm)

lemma body_ended_ok:
  assumes "body_ended net fd c s w = (c', s', w')"
  shows "(client_ok n k c \<longrightarrow> client_ok n k c') \<and> same_clients s s'"
  using assms by (auto simp: body_ended_def Let_def client_simps split: if_split_asm prod.split_asm)

lemma same_clients_trans: "same_clients s s' \<Longrightarrow> same_clients s' s'' \<Longrightarrow> same_clients s s''"
  by (simp add: same_clients_def)


lemma same_clients_inv:
  "server_inv s \<Longrightarrow> same_clients s s' \<Longrightarrow> client_ok (length (sv_configs s)) k c \<Longrightarrow>
     server_inv (put_client k c s') \<and> sv_configs (put_client k c s') = sv_configs s"
  by (simp add: same_clients_def inv_put_frame)

lemma forward_read_ok:
  assumes "forward_read net bytes c s w = (b, c', s', w')"
  shows "(client_ok n k c \<longrightarrow> client_ok n k c') \<and> same_clients s s'"
proof -
  define c1 where "c1 = update_activity (nt_now net w) c"
  have up: "client_ok n k c1 = client_ok n k c" by (simp add: c1_def client_simps)
  have e: "forward_read net bytes c s w =
     (if cl_cgi_stdin_fd c1 = - 1 then (False, c1, s, w)
      else if cl_chunked c1 then
        (case decode_chunked_for_cgi bytes c1 of
           (False, c, decoded, eof) \<Rightarrow>
             (let (fds, c) = end_cgi_input c in (False, c, s, close_all net fds w))
         | (True, c, decoded, chunk_eof) \<Rightarrow>
             let (c, s, w) = forward_bytes net (cl_cgi_stdin_fd c1) decoded c s w in
             if chunk_eof then (False, body_ended net (cl_cgi_stdin_fd c1) c s w) else (True, c, s, w))
      else
        let (c, s, w) = forward_bytes net (cl_cgi_stdin_fd c1) bytes
                          (add_cgi_body_bytes_forwarded (length bytes) c1) s w
        in if body_length_reached c then (False, body_ended net (cl_cgi_stdin_fd c1) c s w)
           else (True, c, s, w))"
    by (simp only: forward_read_def Let_def c1_def)
  have two: ?thesis
    if "client_ok n k c1 \<longrightarrow> client_ok n k c2" and "forward_bytes net fd fwd c2 s w = (c3, s3, w3)"
      and "(if q then (False, body_ended net fd c3 s3 w3) else (True, c3, s3, w3)) = (b, c', s', w')"
    for c2 c3 s3 w3 fd fwd q
    using that up forward_bytes_ok [OF that(2)] body_ended_ok [of net fd c3 s3 w3 c' s' w'] same_clients_trans
    by (fastforce split: if_split_asm)
  show ?thesis
  proof (cases "cl_cgi_stdin_fd c1 = - 1")
    case True
    with assms up show ?thesis by (simp add: e)
  next
    case fd: False
    show ?thesis
    proof (cases "cl_chunked c1")
      case False
      obtain c3 s3 w3 where "forward_bytes net (cl_cgi_stdin_fd c1) bytes
          (add_cgi_body_bytes_forwarded (length bytes) c1) s w = (c3, s3, w3)" by (metis prod_cases3)
      from two [OF _ this] this assms fd False show ?thesis by (simp add: e client_simps)
    next
      case True
      obtain ok c2 d eof where dec: "decode_chunked_for_cgi bytes c1 = (ok, c2, d, eof)"
        by (metis prod_cases4)
      have c2: "client_ok n k c1 \<longrightarrow> client_ok n k c2" using client_ok_decode [OF dec] by simp
      obtain c3 s3 w3 where fb: "forward_bytes net (cl_cgi_stdin_fd c1) d c2 s w = (c3, s3, w3)"
        by (metis prod_cases3)
      obtain fds c4 where en: "end_cgi_input c2 = (fds, c4)" by (metis surj_pair)
      show ?thesis
      proof (cases ok)
        case False
        with assms fd True dec en have "c' = c4" "s' = s" by (simp_all add: e)
        with client_ok_end_input [OF en] c2 up show ?thesis by simp
      next
        case ok: True
        from two [OF c2 fb] assms fd True dec ok fb show ?thesis by (simp add: e)
      qed
    qed
  qed
qed

lemma cgi_read_loop_ok:
  "cgi_read_loop net idx t c s w = (c', s', w') \<Longrightarrow>
     (client_ok n k c \<longrightarrow> client_ok n k c') \<and> same_clients s s'"
proof (induction net idx t c s w rule: cgi_read_loop.induct)
  case (1 net idx t c s w)
  note unfold = cgi_read_loop.simps [of net idx t c s w]
  consider (lim) "FAIR_IO_LIMIT \<le> t" | (pressed) "\<not> FAIR_IO_LIMIT \<le> t" "CGI_BACKPRESSURE_LIMIT < cgi_stdin_pending_size c"
    | (reads) "\<not> FAIR_IO_LIMIT \<le> t" "\<not> CGI_BACKPRESSURE_LIMIT < cgi_stdin_pending_size c" by blast
  then show ?case
  proof cases
    case lim
    with 1(2) show ?thesis by (simp add: unfold)
  next
    case pressed
    then have "c' = c" "s' = s\<lparr>sv_poll := (sv_poll s)[idx := drop_event POLLIN (sv_poll s ! idx)]\<rparr>"
      using 1(2) by (simp_all add: unfold)
    then show ?thesis by simp
  next
    case reads
    obtain res w1 where r: "nt_read net (cl_fd c) w = (res, w1)" by (metis surj_pair)
    obtain fds c1 where en: "end_cgi_input c = (fds, c1)" by (metis surj_pair)
    show ?thesis
    proof (cases res)
      case (Got x xs)
      obtain b c2 s2 w2 where f: "forward_read net (x # xs) c s w1 = (b, c2, s2, w2)" by (metis prod_cases4)
      show ?thesis
      proof (cases b)
        case True
        have "cgi_read_loop net idx (t + length (x # xs)) c2 s2 w2 = (c', s', w')"
          using 1(2) reads r Got f True by (simp add: unfold)
        from 1(1) [OF reads r [symmetric] Got f [symmetric] _ refl refl this]
        show ?thesis using True forward_read_ok [OF f, of n k] same_clients_trans [of s s2 s'] by auto
      next
        case False
        with 1(2) reads r Got f have "c' = c2" "s' = s2" by (simp_all add: unfold)
        with forward_read_ok [OF f] show ?thesis by simp
      qed
    next
      case Eof
      with 1(2) reads r en have "c' = c1" "s' = s" by (simp_all add: unfold)
      with client_ok_end_input [OF en] show ?thesis by simp
    next
      case Again
      with 1(2) reads r show ?thesis by (simp add: unfold)
    next
      case Broken
      with 1(2) reads r en have "c' = c1" "s' = s" by (simp_all add: unfold)
      with client_ok_end_input [OF en] show ?thesis by simp
    qed
  qed
qed

lemma take_input_ok:
  "take_input conf bytes c = (c', r) \<Longrightarrow> client_ok n k c' = client_ok n k c"
  by (auto simp: take_input_def Let_def client_simps split: if_split_asm)

text \<open>The ways \<open>handle_input\<close> ends: more input is needed, an answer is set, or a script is started.\<close>

lemma handle_input_cases [consumes 1, case_names wait answer script]:
  assumes "handle_input os net gw key c bytes idx s w = Some (s', w')"
  obtains c' where "\<And>n k. client_ok n k c' = client_ok n k c" and "s' = put_client key c' s" and "w' = w"
  | c' answer events where "\<And>n k. client_ok n k c' = client_ok n k c"
      and "s' = put_client key (clear_buffer (set_response answer c'))
        (s\<lparr>sv_poll := (sv_poll s)[idx := (sv_poll s ! idx)\<lparr>pf_events := events\<rparr>]\<rparr>)"
  | c' where "\<And>n k. client_ok n k c' = client_ok n k c"
      and "dispatch_cgi os net key c' idx s w = (s', w')"
proof -
  obtain c1 r where t: "take_input (conf_of s c) bytes c = (c1, r)" by (metis surj_pair)
  show thesis
  proof (cases r)
    case None
    with assms t take_input_ok [OF t] show thesis by (intro that(1) [of c1]) (auto simp: handle_input_def Let_def)
  next
    case (Some new_data)
    obtain complete req where p: "parse (cl_request c1) new_data = (complete, req)" by (metis surj_pair)
    define c2 where "c2 = (if cl_request_started (c1\<lparr>cl_request := req\<rparr>)
      then clear_raw_buffer (c1\<lparr>cl_request := req\<rparr>) else c1\<lparr>cl_request := req\<rparr>)"
    have ok: "client_ok n k c2 = client_ok n k c" for n k
      using take_input_ok [OF t] by (simp add: c2_def client_simps)
    have h: "(if is_error req then
               Some (put_client key (clear_buffer (set_response (to_string (reject_request os w req (conf_of s c))) c2))
                  (s\<lparr>sv_poll := (sv_poll s)[idx := (sv_poll s ! idx)\<lparr>pf_events := {POLLOUT}\<rparr>]\<rparr>), w)
             else if starts_script c2 (conf_of s c) then Some (dispatch_cgi os net key c2 idx s w)
             else if \<not> complete then Some (put_client key c2 s, w)
             else case answer_request os gw w req (conf_of s c) of
                    None \<Rightarrow> None
                  | Some (response, w) \<Rightarrow>
                      Some (put_client key (clear_buffer (set_response (to_string response) c2))
                              (s\<lparr>sv_poll := (sv_poll s)[idx := or_event POLLOUT (sv_poll s ! idx)]\<rparr>), w))
        = Some (s', w')"
      using assms by (simp only: handle_input_def Let_def t Some p prod.case option.case c2_def)
    show thesis
    proof (cases "is_error req \<or> \<not> starts_script c2 (conf_of s c) \<and> complete")
      case True
      with h that(2) [OF ok] show thesis
        by (auto simp: or_event_def split: if_split_asm option.split_asm)
    next
      case False
      with h that(1,3) [OF ok] show thesis by (auto split: if_split_asm)
    qed
  qed
qed

lemma handle_input_ok:
  assumes "server_inv s" and ok: "client_ok (length (sv_configs s)) key c"
    and "handle_input os net gw key c bytes idx s w = Some (s', w')"
  shows "server_inv s' \<and> sv_configs s' = sv_configs s"
  using assms(3)
proof (cases rule: handle_input_cases)
  case (wait c')
  with assms(1) ok show ?thesis by (simp add: inv_put)
next
  case (answer c' answer events)
  with assms(1) ok show ?thesis by (simp add: inv_put_frame client_simps)
next
  case (script c')
  with dispatch_cgi_ok [OF assms(1) _ script(2)] ok show ?thesis by simp
qed

lemma handle_client_read_ok:
  assumes "server_inv s" and "handle_client_read os net gw idx s w = Some (i, s', w')"
  shows "server_inv s' \<and> sv_configs s' = sv_configs s"
proof (cases "get_client s (pf_fd (sv_poll s ! idx))")
  case None
  with assms show ?thesis by (auto simp: handle_client_read_def Let_def split: if_split_asm)
next
  case (Some c)
  let ?k = "pf_fd (sv_poll s ! idx)"
  note ok = inv_client [OF assms(1) Some]
  show ?thesis
  proof (cases "cl_cgi_active c")
    case True
    obtain c1 s1 w1 where l: "cgi_read_loop net idx 0 c s w = (c1, s1, w1)" by (metis prod_cases3)
    with assms Some True have "s' = put_client ?k c1 s1"
      by (auto simp: handle_client_read_def Let_def split: if_split_asm)
    with same_clients_inv [OF assms(1), of s1 ?k c1] cgi_read_loop_ok [OF l] ok show ?thesis by simp
  next
    case False
    let ?c = "update_activity (nt_now net w) c"
    let ?s = "put_client ?k ?c s"
    have s: "server_inv ?s" and okc: "client_ok (length (sv_configs ?s)) ?k ?c"
      using inv_put [OF assms(1), of ?k ?c] ok by (simp_all add: client_simps)
    obtain res w1 where r: "nt_read net (cl_fd ?c) w = (res, w1)" by (metis surj_pair)
    from assms(2) Some False r consider "s' = ?s" | "remove_client net idx ?s w1 = Some (s', w')"
      | bytes where "handle_input os net gw ?k ?c bytes idx ?s w1 = Some (s', w')"
      by (cases res) (auto simp: handle_client_read_def Let_def split: if_split_asm)
    then show ?thesis
      by cases (use s inv_remove [OF s] handle_input_ok [OF s okc] in \<open>simp_all\<close>)
  qed
qed

lemma client_ok_sent:
  assumes "net_ok net" and "client_ok n k c" and "cl_response c \<noteq> []"
    and "nt_send net fd (drop (cl_response_offset c) (cl_response c)) w = (Sent m, w')"
  shows "client_ok n k (clear_response (update_activity t (advance_response_offset (Suc m) c)))"
    and "\<not> length (cl_response c) \<le> cl_response_offset c + Suc m \<Longrightarrow>
      client_ok n k (update_activity t (advance_response_offset (Suc m) c))"
  using assms net_ok_send [OF assms(1,4)]
  by (auto simp: client_ok_def update_activity_def advance_response_offset_def clear_response_def
      stdin_queue_ok_def send_queue_ok_def)

lemma send_response_ok:
  assumes "net_ok net" and "server_inv s" and "client_ok (length (sv_configs s)) key c"
    and "cl_response c \<noteq> []" and "send_response net key c idx s w = Some (b, s', w')"
  shows "server_inv s' \<and> sv_configs s' = sv_configs s"
proof -
  obtain res w1 where r: "nt_send net (cl_fd c) (drop (cl_response_offset c) (cl_response c)) w = (res, w1)"
    by (metis surj_pair)
  show ?thesis
  proof (cases res)
    case (Sent m)
    let ?c = "update_activity (nt_now net w1) (advance_response_offset (Suc m) c)"
    have off: "cl_response_offset ?c = cl_response_offset c + Suc m"
      by (simp add: update_activity_def advance_response_offset_def)
    note sent = client_ok_sent [OF assms(1,3,4) r [unfolded Sent], of "nt_now net w1"]
    show ?thesis
    proof (cases "length (cl_response c) \<le> cl_response_offset ?c")
      case True
      let ?s = "put_client key (clear_response ?c)
                  (s\<lparr>sv_poll := (sv_poll s)[idx := drop_event POLLOUT (sv_poll s ! idx)]\<rparr>)"
      have "remove_client net idx ?s w1 = Some (s', w')"
        using assms(5) r Sent True by (auto simp: send_response_def Let_def)
      moreover have "server_inv ?s" using assms(2) sent(1) by (simp add: inv_put_frame)
      ultimately show ?thesis using inv_remove [of ?s net idx w1 s' w'] by simp
    next
      case False
      with assms(2,5) r Sent sent(2) off show ?thesis by (auto simp: send_response_def Let_def inv_put)
    qed
  qed (use assms r in \<open>auto simp: send_response_def Let_def dest!: inv_remove [OF assms(2)]\<close>)
qed

lemma handle_poll_output_ok:
  assumes "net_ok net" and "server_inv s" and "handle_poll_output net idx s w = Some (b, i, s', w')"
  shows "server_inv s' \<and> sv_configs s' = sv_configs s"
proof (cases "POLLOUT \<in> pf_revents (sv_poll s ! idx) \<and> \<not> isCgiStdinFd s (pf_fd (sv_poll s ! idx))")
  case False
  with assms handle_cgi_stdin_writable_ok [OF assms(1,2)] show ?thesis
    by (auto simp: handle_poll_output_def Let_def split: if_split_asm)
next
  case True
  let ?k = "pf_fd (sv_poll s ! idx)"
  show ?thesis
  proof (cases "get_client s ?k")
    case None
    with assms True show ?thesis by (auto simp: handle_poll_output_def Let_def split: if_split_asm)
  next
    case (Some c)
    note ok = inv_client [OF assms(2) Some]
    obtain ex c1 p1 w1 where l: "send_loop net ?k idx 0 c (sv_poll s) w = (ex, c1, p1, w1)"
      by (metis prod_cases4)
    let ?s = "put_client ?k c1 (s\<lparr>sv_poll := p1\<rparr>)"
    have s: "server_inv ?s" using assms(2) send_loop_ok [OF l assms(1) ok] by (simp add: inv_put_frame)
    consider "s' = ?s" | "remove_client net idx ?s w1 = Some (s', w')" | "s' = s"
      | "cl_response c \<noteq> []" "send_response net ?k c idx s w = Some (b, s', w')"
      using assms(3) True Some l
      by (auto simp: handle_poll_output_def Let_def split: if_split_asm send_exit.split_asm)
    then show ?thesis
    proof cases
      case 2
      from inv_remove [OF s this] show ?thesis by simp
    next
      case 4
      from send_response_ok [OF assms(1,2) ok this] show ?thesis .
    qed (use s assms(2) in simp_all)
  qed
qed

lemma handle_poll_errors_ok:
  assumes "server_inv s" and "handle_poll_errors net idx s w = Some (b, s', w')"
  shows "server_inv s' \<and> sv_configs s' = sv_configs s"
proof -
  let ?fd = "pf_fd (sv_poll s ! idx)"
  have closed: "server_inv s1 \<and> sv_configs s1 = sv_configs s"
    if "(case map_of (sv_cgi_in s) ?fd of
           None \<Rightarrow> (s0, w0)
         | Some key \<Rightarrow>
            (case get_client s key of
               None \<Rightarrow> (s0, w0)
             | Some c \<Rightarrow> let (fds, c) = close_cgi_stdin c in (put_client key c s0, close_all net fds w0)))
         = (s1, w1)"
      and "s0 = s\<lparr>sv_cgi_in := map_erase ?fd (sv_cgi_in s)\<rparr>" for s0 w0 s1 w1
    using that assms(1)
    by (auto simp: client_simps intro!: inv_put_frame dest: inv_client split: option.split_asm prod.split_asm)
  show ?thesis
    using assms
    by (auto simp: handle_poll_errors_def Let_def split: if_split_asm prod.split_asm
        dest!: inv_remove [OF assms(1)] closed [OF _ refl])
qed

lemma handle_poll_input_ok:
  assumes "server_inv s" and "handle_poll_input os net gw idx s w = Some (b, i, s', w')"
  shows "server_inv s' \<and> sv_configs s' = sv_configs s"
  using assms
  by (auto simp: handle_poll_input_def Let_def split: if_split_asm
      dest!: handle_cgi_output_ok [OF assms(1)] inv_accept [OF assms(1)] handle_client_read_ok [OF assms(1)])

section \<open>Turns of the event loop\<close>

text \<open>The ways a turn of the scan runs through the three handlers.\<close>

lemma scan_turn_cases [consumes 1, case_names errors input output_done next_entry]:
  assumes "scan_turn os net gw idx s w = Some (i, s', w')"
  obtains "handle_poll_errors net idx s w = Some (True, s', w')" and "i = idx"
  | s1 w1 where "handle_poll_errors net idx s w = Some (False, s1, w1)"
      and "handle_poll_input os net gw idx s1 w1 = Some (True, i, s', w')"
  | s1 w1 j s2 w2 where "handle_poll_errors net idx s w = Some (False, s1, w1)"
      and "handle_poll_input os net gw idx s1 w1 = Some (False, j, s2, w2)"
      and "handle_poll_output net j s2 w2 = Some (True, i, s', w')"
  | s1 w1 j s2 w2 k s3 where "handle_poll_errors net idx s w = Some (False, s1, w1)"
      and "handle_poll_input os net gw idx s1 w1 = Some (False, j, s2, w2)"
      and "handle_poll_output net j s2 w2 = Some (False, k, s3, w')" and "k < length (sv_poll s3)"
      and "i = k + 1"
      and "s' = s3\<lparr>sv_poll := (sv_poll s3)[k := (sv_poll s3 ! k)\<lparr>pf_revents := {}\<rparr>]\<rparr>"
  using assms
  by (auto simp: scan_turn_def split: option.split_asm prod.split_asm bool.split_asm if_split_asm)

lemma scan_turn_ok:
  assumes "net_ok net" and "server_inv s" and "scan_turn os net gw idx s w = Some (i, s', w')"
  shows "server_inv s' \<and> sv_configs s' = sv_configs s"
  using assms(3)
proof (cases rule: scan_turn_cases)
  case errors
  show ?thesis by (rule handle_poll_errors_ok [OF assms(2) errors(1)])
next
  case (input s1 w1)
  have "server_inv s1 \<and> sv_configs s1 = sv_configs s" by (rule handle_poll_errors_ok [OF assms(2) input(1)])
  then show ?thesis using handle_poll_input_ok [OF _ input(2)] by simp
next
  case (output_done s1 w1 j s2 w2)
  have "server_inv s1 \<and> sv_configs s1 = sv_configs s" using handle_poll_errors_ok [OF assms(2) output_done(1)] .
  moreover from this have "server_inv s2 \<and> sv_configs s2 = sv_configs s1"
    using handle_poll_input_ok [OF _ output_done(2)] by blast
  ultimately show ?thesis using handle_poll_output_ok [OF assms(1) _ output_done(3)] by simp
next
  case (next_entry s1 w1 j s2 w2 k s3)
  have "server_inv s1 \<and> sv_configs s1 = sv_configs s" using handle_poll_errors_ok [OF assms(2) next_entry(1)] .
  moreover from this have "server_inv s2 \<and> sv_configs s2 = sv_configs s1"
    using handle_poll_input_ok [OF _ next_entry(2)] by blast
  ultimately show ?thesis using handle_poll_output_ok [OF assms(1) _ next_entry(3)] next_entry(6) by simp
qed

lemma new_server_object_ok:
  assumes "new_server_object net configs w = (s, w')"
  shows "server_inv s \<and> sv_configs s = configs"
proof -
  have "open_sockets net i confs s w = (s', w') \<Longrightarrow> server_inv s \<Longrightarrow>
      length (sv_sockets s) = i \<Longrightarrow> i + length confs = length (sv_configs s) \<Longrightarrow>
      server_inv s' \<and> sv_configs s' = sv_configs s" for i confs s w s' w'
  proof (induction confs arbitrary: i s w)
    case (Cons conf confs)
    have gone: "server_inv (s\<lparr>sv_sockets := [], sv_poll := [], sv_init_ok := False\<rparr>)"
      using Cons.prems(2) by (simp add: server_inv_def sockets_ok_def)
    let ?s = "\<lambda>fd. s\<lparr>sv_sockets := sv_sockets s @ [\<lparr>ss_fd = fd, ss_port = sc_port conf, ss_index = i\<rparr>],
                    sv_poll := sv_poll s @ [poll_entry fd POLLIN]\<rparr>"
    have added: "server_inv (?s fd)" for fd
      using Cons.prems(2-4) by (auto simp: server_inv_def sockets_ok_def nth_append less_Suc_eq)
    from Cons.prems(1) consider "s' = s\<lparr>sv_sockets := [], sv_poll := [], sv_init_ok := False\<rparr>"
      | fd w1 where "open_sockets net (Suc i) confs (?s fd) w1 = (s', w')"
      by (auto simp: Let_def cleanup_sockets_def split: option.split_asm prod.split_asm bool.split_asm)
    then show ?case
    proof cases
      case 1
      with gone show ?thesis by simp
    next
      case (2 fd w1)
      from Cons.IH [OF this added] Cons.prems(3,4) show ?thesis by simp
    qed
  qed simp
  moreover have "server_inv (empty_server configs)"
    by (simp add: empty_server_def server_inv_def sockets_ok_def ordered_map_def)
  ultimately have "server_inv s \<and> sv_configs s = sv_configs (empty_server configs)"
    using assms by (simp add: new_server_object_def empty_server_def)
  then show ?thesis by (simp add: empty_server_def)
qed

end
