(* ===== verification/Machine.thy ===== *)
theory Machine
  imports Prelude
begin

text \<open>
  Machines given by a deterministic step relation with final states, as a locale: runs with the same
  start meet, so a final state is reached at most once, and a property every step keeps holds along
  every run. The event loop of the server provides it in \<open>ServerStep\<close>.
\<close>

locale machine =
  fixes step :: "'s \<Rightarrow> 's \<Rightarrow> bool"
    and final :: "'s \<Rightarrow> bool"
  assumes step_unique: "step x y \<Longrightarrow> step x z \<Longrightarrow> y = z"
    and final_stops: "final x \<Longrightarrow> \<not> step x y"
begin

lemma runs_meet: "step\<^sup>*\<^sup>* x y \<Longrightarrow> step\<^sup>*\<^sup>* x z \<Longrightarrow> final z \<Longrightarrow> step\<^sup>*\<^sup>* y z"
proof (induction rule: converse_rtranclp_induct)
  case (step x x1)
  from step.prems step.hyps(1) final_stops obtain x2 where "step x x2" "step\<^sup>*\<^sup>* x2 z"
    by (metis converse_rtranclpE)
  with step.IH step.prems(2) step_unique [OF step.hyps(1)] show ?case by blast
qed simp

lemma final_run: "step\<^sup>*\<^sup>* x y \<Longrightarrow> final x \<Longrightarrow> y = x"
  by (metis converse_rtranclpE final_stops)

lemma final_unique: "step\<^sup>*\<^sup>* x y \<Longrightarrow> final y \<Longrightarrow> step\<^sup>*\<^sup>* x z \<Longrightarrow> final z \<Longrightarrow> y = z"
  using runs_meet final_run by blast

lemma invariant: "step\<^sup>*\<^sup>* x y \<Longrightarrow> P x \<Longrightarrow> (\<And>u v. step u v \<Longrightarrow> P u \<Longrightarrow> P v) \<Longrightarrow> P y"
  by (induction rule: rtranclp_induct) auto

text \<open>A function of the state that every step keeps has, at the start, its value at the end.\<close>

lemma value_kept: "step\<^sup>*\<^sup>* x y \<Longrightarrow> (\<And>u v. step u v \<Longrightarrow> f u = f v) \<Longrightarrow> f x = f y"
  by (induction rule: rtranclp_induct) auto

end

end
