(* ===== verification/ServerStep.thy ===== *)
theory ServerStep
  imports ServerHandlers Machine
begin

text \<open>
  \<open>Server::start\<close> as a machine: one step per turn of each of its three loops (\<open>poll\<close>, the scan over
  the vector, the timeout scan). Its runs are those of the functions of \<open>ServerLoop\<close>, so what holds
  in every state the machine reaches holds at every moment of \<open>start\<close>.
\<close>

section \<open>The machine\<close>

datatype phase = Polling | Scanning nat | Expiring int nat | Stopped

type_synonym 'w loop_state = "phase \<times> server \<times> 'w"

definition expired :: "int \<Rightarrow> server \<Rightarrow> nat \<Rightarrow> bool" where
  "expired now s i \<longleftrightarrow>
     (let fd = pf_fd (sv_poll s ! i) in
      \<not> isListeningSocket s fd \<and>
      (case get_client s fd of None \<Rightarrow> False | Some c \<Rightarrow> CLIENT_TIMEOUT < now - cl_last_activity c))"

inductive server_step :: "'w sys \<Rightarrow> 'w net \<Rightarrow> 'w gateway \<Rightarrow> 'w loop_state \<Rightarrow> 'w loop_state \<Rightarrow> bool"
  for os :: "'w sys" and net :: "'w net" and gw :: "'w gateway" where
  halt: "\<not> nt_looping net w \<Longrightarrow> server_step os net gw (Polling, s, w) (Stopped, s, w)"
| interrupted: "nt_looping net w \<Longrightarrow> nt_poll net (sv_poll s) w = (Poll_Interrupted, w') \<Longrightarrow>
    server_step os net gw (Polling, s, w) (Polling, s, w')"
| poll_failed: "nt_looping net w \<Longrightarrow> nt_poll net (sv_poll s) w = (Poll_Failed, w') \<Longrightarrow>
    server_step os net gw (Polling, s, w) (Stopped, s, w')"
| polled: "nt_looping net w \<Longrightarrow> nt_poll net (sv_poll s) w = (Polled rs, w') \<Longrightarrow>
    server_step os net gw (Polling, s, w) (Scanning 0, s\<lparr>sv_poll := set_revents rs (sv_poll s)\<rparr>, w')"
| turn: "i < length (sv_poll s) \<Longrightarrow> scan_turn os net gw i s w = Some (j, s', w') \<Longrightarrow>
    server_step os net gw (Scanning i, s, w) (Scanning j, s', w')"
| scanned: "length (sv_poll s) \<le> i \<Longrightarrow>
    server_step os net gw (Scanning i, s, w) (Expiring (nt_now net w) 0, s, w)"
| keep: "i < length (sv_poll s) \<Longrightarrow> \<not> expired now s i \<Longrightarrow>
    server_step os net gw (Expiring now i, s, w) (Expiring now (i + 1), s, w)"
| expire: "i < length (sv_poll s) \<Longrightarrow> expired now s i \<Longrightarrow> remove_client net i s w = Some (s', w') \<Longrightarrow>
    server_step os net gw (Expiring now i, s, w) (Expiring now i, s', w')"
| again: "length (sv_poll s) \<le> i \<Longrightarrow> server_step os net gw (Expiring now i, s, w) (Polling, s, w)"

inductive_cases server_stepE [consumes 1]: "server_step os net gw (ph, s, w) x"

inductive_simps server_step_simps:
  "server_step os net gw (Stopped, s, w) x"
  "server_step os net gw (Polling, s, w) x"
  "server_step os net gw (Scanning i, s, w) x"
  "server_step os net gw (Expiring now i, s, w) x"

interpretation event_loop: machine "server_step os net gw" "\<lambda>x. fst x = Stopped" for os net gw
proof
  fix x y z
  assume "server_step os net gw x y" "server_step os net gw x z"
  then show "y = z" by (cases rule: server_step.cases) (auto simp: server_step_simps)
next
  fix x :: "'a loop_state" and y
  assume "fst x = Stopped"
  then show "\<not> server_step os net gw x y" by (cases x) (simp add: server_step_simps)
qed

section \<open>The machine and the loop\<close>

text \<open>What is still to be done from a state of the machine.\<close>

definition after_timeouts ::
  "'w sys \<Rightarrow> 'w net \<Rightarrow> 'w gateway \<Rightarrow> (server \<times> 'w) option \<Rightarrow> (server \<times> 'w) option" where
  "after_timeouts os net gw r = (case r of None \<Rightarrow> None | Some (s, w) \<Rightarrow> start_loop os net gw s w)"

fun rest_of_loop :: "'w sys \<Rightarrow> 'w net \<Rightarrow> 'w gateway \<Rightarrow> 'w loop_state \<Rightarrow> (server \<times> 'w) option" where
  "rest_of_loop os net gw (Stopped, s, w) = Some (s, w)"
| "rest_of_loop os net gw (Polling, s, w) = start_loop os net gw s w"
| "rest_of_loop os net gw (Expiring now i, s, w) = after_timeouts os net gw (timeout_scan net now i s w)"
| "rest_of_loop os net gw (Scanning i, s, w) =
     (case scan os net gw i s w of
        None \<Rightarrow> None
      | Some (s, w) \<Rightarrow> after_timeouts os net gw (timeout_scan net (nt_now net w) 0 s w))"

lemma timeout_scan_step:
  "timeout_scan net now i s w =
     (if length (sv_poll s) \<le> i then Some (s, w)
      else if expired now s i then
        (case remove_client net i s w of None \<Rightarrow> None | Some (s, w) \<Rightarrow> timeout_scan net now i s w)
      else timeout_scan net now (i + 1) s w)"
  by (subst timeout_scan.simps) (simp add: expired_def Let_def split: option.split)

lemma start_loop_step:
  "start_loop os net gw s w =
     (if \<not> nt_looping net w then Some (s, w)
      else case nt_poll net (sv_poll s) w of
        (Poll_Interrupted, w) \<Rightarrow> start_loop os net gw s w
      | (Poll_Failed, w) \<Rightarrow> Some (s, w)
      | (Polled rs, w) \<Rightarrow>
          rest_of_loop os net gw (Scanning 0, s\<lparr>sv_poll := set_revents rs (sv_poll s)\<rparr>, w))"
  by (subst start_loop.simps)
     (auto simp: serve_round_def after_timeouts_def split: poll_outcome.split prod.split option.split)

lemma step_keeps_rest: "server_step os net gw x y \<Longrightarrow> rest_of_loop os net gw x = rest_of_loop os net gw y"
proof (induction rule: server_step.induct)
  case (turn i s w j s' w')
  then show ?case by (simp add: scan.simps [of os net gw i s w])
next
  case (scanned s i w)
  then show ?case by (simp add: scan.simps [of os net gw i s w])
next
  case (keep i s now w)
  then show ?case by (simp add: timeout_scan_step [of net now i s w])
next
  case (expire i s now w s' w')
  then show ?case by (simp add: timeout_scan_step [of net now i s w])
next
  case (again s i now w)
  then show ?case by (simp add: timeout_scan_step [of net now i s w] after_timeouts_def)
qed (simp_all add: start_loop_step [of os net gw])

text \<open>Induction along the timeout scan.\<close>

lemma timeout_rule [consumes 1, case_names stop keep drop]:
  assumes "timeout_scan net now i s w = Some r"
    and stop: "\<And>i s w. length (sv_poll s) \<le> i \<Longrightarrow> P i s w (s, w)"
    and keep: "\<And>i s w r. i < length (sv_poll s) \<Longrightarrow> \<not> expired now s i \<Longrightarrow>
      timeout_scan net now (i + 1) s w = Some r \<Longrightarrow> P (i + 1) s w r \<Longrightarrow> P i s w r"
    and drop: "\<And>i s w s1 w1 r. i < length (sv_poll s) \<Longrightarrow> expired now s i \<Longrightarrow>
      remove_client net i s w = Some (s1, w1) \<Longrightarrow> timeout_scan net now i s1 w1 = Some r \<Longrightarrow>
      P i s1 w1 r \<Longrightarrow> P i s w r"
  shows "P i s w r"
  using assms(1)
proof (induction "length (sv_poll s) - i" arbitrary: i s w rule: less_induct)
  case less
  note unfold = timeout_scan_step [of net now i s w]
  consider "length (sv_poll s) \<le> i" | "i < length (sv_poll s)" "\<not> expired now s i"
    | "i < length (sv_poll s)" "expired now s i" by linarith
  then show ?case
  proof cases
    case 1
    with less.prems stop show ?thesis by (auto simp: unfold)
  next
    case 2
    then have t: "timeout_scan net now (i + 1) s w = Some r" using less.prems by (simp add: unfold)
    show ?thesis by (rule keep [OF 2 t]) (rule less.hyps [OF _ t], use 2 in simp)
  next
    case 3
    then obtain s1 w1 where r: "remove_client net i s w = Some (s1, w1)"
      and t: "timeout_scan net now i s1 w1 = Some r"
      using less.prems by (auto simp: unfold split: option.split_asm)
    show ?thesis
      by (rule drop [OF 3 r t]) (rule less.hyps [OF _ t], use 3 remove_client_less [OF r] in simp)
  qed
qed

lemma timeout_run:
  "timeout_scan net now i s w = Some r \<Longrightarrow> (server_step os net gw)\<^sup>*\<^sup>* (Expiring now i, s, w) (Polling, r)"
proof (induction rule: timeout_rule)
  case (stop i s w)
  then have "server_step os net gw (Expiring now i, s, w) (Polling, s, w)" by (rule server_step.again)
  then show ?case ..
next
  case (keep i s w r)
  from server_step.keep [OF keep(1,2)] keep(4) show ?case by (rule converse_rtranclp_into_rtranclp)
next
  case (drop i s w s1 w1 r)
  from server_step.expire [OF drop(1-3)] drop(5) show ?case by (rule converse_rtranclp_into_rtranclp)
qed

lemma scan_run:
  "scan os net gw i s w = Some r \<Longrightarrow>
     \<exists>j. (server_step os net gw)\<^sup>*\<^sup>* (Scanning i, s, w) (Scanning j, r) \<and> length (sv_poll (fst r)) \<le> j"
proof (induction rule: scan.raw_induct [rotated, consumes 1])
  case (1 rec os net gw i s w r)
  show ?case
  proof (cases "length (sv_poll s) \<le> i")
    case True
    with 1(2) show ?thesis by auto
  next
    case False
    then obtain j s1 w1 where t: "scan_turn os net gw i s w = Some (j, s1, w1)"
      and r: "rec os net gw j s1 w1 = Some r"
      using 1(2) by (auto split: option.split_asm)
    then have "server_step os net gw (Scanning i, s, w) (Scanning j, s1, w1)"
      using False by (simp add: server_step.turn)
    with 1(1) [OF r] show ?thesis by (meson converse_rtranclp_into_rtranclp)
  qed
qed

lemma start_run:
  "start_loop os net gw s w = Some r \<Longrightarrow> (server_step os net gw)\<^sup>*\<^sup>* (Polling, s, w) (Stopped, r)"
proof (induction rule: start_loop.raw_induct [rotated, consumes 1])
  case (1 rec os net gw s w r)
  note IH = 1(1) and run_eq = 1(2)
  let ?step = "server_step os net gw"
  obtain out w1 where p: "nt_poll net (sv_poll s) w = (out, w1)" by (metis surj_pair)
  consider "\<not> nt_looping net w" | "nt_looping net w" "out = Poll_Interrupted"
    | "nt_looping net w" "out = Poll_Failed" | rs where "nt_looping net w" "out = Polled rs"
    by (cases out) auto
  then show ?case
  proof cases
    case 1
    with run_eq show ?thesis by (auto simp: serve_round_def intro: server_step.halt)
  next
    case 2
    then have "rec os net gw s w1 = Some r" using run_eq p by (simp add: serve_round_def)
    moreover have "?step (Polling, s, w) (Polling, s, w1)"
      using 2 p by (simp add: server_step.interrupted)
    ultimately show ?thesis using IH by (meson converse_rtranclp_into_rtranclp)
  next
    case 3
    with run_eq p show ?thesis by (auto simp: serve_round_def intro: server_step.poll_failed)
  next
    case (4 rs)
    let ?s = "s\<lparr>sv_poll := set_revents rs (sv_poll s)\<rparr>"
    obtain s1 w2 s2 w3 where sc: "scan os net gw 0 ?s w1 = Some (s1, w2)"
      and t: "timeout_scan net (nt_now net w2) 0 s1 w2 = Some (s2, w3)"
      and r: "rec os net gw s2 w3 = Some r"
      using run_eq 4 p by (auto simp: serve_round_def split: option.split_asm)
    obtain j where run: "?step\<^sup>*\<^sup>* (Scanning 0, ?s, w1) (Scanning j, s1, w2)" and j: "length (sv_poll s1) \<le> j"
      using scan_run [OF sc] by auto
    have "?step (Polling, s, w) (Scanning 0, ?s, w1)" using 4 p by (simp add: server_step.polled)
    moreover have "?step (Scanning j, s1, w2) (Expiring (nt_now net w2) 0, s1, w2)"
      using j by (rule server_step.scanned)
    ultimately show ?thesis
      using run timeout_run [OF t, of os gw] IH [OF r]
      by (meson converse_rtranclp_into_rtranclp rtranclp_trans)
  qed
qed

text \<open>
  The machine refines the event loop: \<open>start\<close> returns with a server object and a world exactly
  when the machine, started at \<open>poll\<close>, runs to its final state with them. So a round is the scan
  followed by the timeouts, no step is missing, and every moment of a run of \<open>start\<close> is a state of
  the machine.
\<close>

theorem start_is_machine:
  "start_loop os net gw s w = Some (s', w') \<longleftrightarrow>
     (server_step os net gw)\<^sup>*\<^sup>* (Polling, s, w) (Stopped, s', w')"
proof
  assume "(server_step os net gw)\<^sup>*\<^sup>* (Polling, s, w) (Stopped, s', w')"
  from event_loop.value_kept [OF this, of "rest_of_loop os net gw"] show "start_loop os net gw s w = Some (s', w')"
    by (simp add: step_keeps_rest)
qed (rule start_run)

end
