(* ===== verification/ServerScan.thy ===== *)
theory ServerScan
  imports ServerStep
begin

text \<open>
  The scan over the \<open>poll\<close> vector, whose handlers erase and append entries while an index runs over it.
  The vector changes in three ways only: an entry's \<open>events\<close> are set, an entry without \<open>revents\<close> is
  appended, an entry is erased. Every turn on an entry with \<open>revents\<close> uses up one of them, so the scan
  ends however the handlers move the entries about.
\<close>

section \<open>How the vector evolves\<close>

inductive evolves :: "pollfd list \<Rightarrow> pollfd list \<Rightarrow> bool" for p where
  evolves_same: "evolves p p"
| evolves_events: "evolves p q \<Longrightarrow> map pf_fd r = map pf_fd q \<Longrightarrow> map pf_revents r = map pf_revents q \<Longrightarrow>
    evolves p r"
| evolves_added: "evolves p q \<Longrightarrow> evolves p (q @ [poll_entry fd b])"
| evolves_erased: "evolves p q \<Longrightarrow> evolves p (erase_at i q)"

lemma evolves_trans: "evolves q r \<Longrightarrow> evolves p q \<Longrightarrow> evolves p r"
  by (induction rule: evolves.induct) (auto intro: evolves.intros)

text \<open>An entry at or before position \<open>i\<close> was erased on the way.\<close>

definition loses :: "nat \<Rightarrow> pollfd list \<Rightarrow> pollfd list \<Rightarrow> bool" where
  "loses i p q \<longleftrightarrow> (\<exists>p1 j. evolves p p1 \<and> j \<le> i \<and> evolves (erase_at j p1) q)"

lemma loses_evolves: "loses i p q \<Longrightarrow> evolves q r \<Longrightarrow> loses i p r"
  unfolding loses_def using evolves_trans by blast

lemma evolves_loses: "evolves p q \<Longrightarrow> loses i q r \<Longrightarrow> loses i p r"
  unfolding loses_def using evolves_trans by blast

lemma loses_erase: "j \<le> i \<Longrightarrow> loses i p (erase_at j p)"
  unfolding loses_def using evolves_same by blast

section \<open>Entries with events\<close>

definition busy :: "nat \<Rightarrow> pollfd list \<Rightarrow> nat" where
  "busy i p = length (filter (\<lambda>x. pf_revents x \<noteq> {}) (drop i p))"

definition due :: "nat \<Rightarrow> nat \<Rightarrow> pollfd list \<Rightarrow> bool" where
  "due n i p \<longleftrightarrow> busy i p < n \<or> busy i p \<le> n \<and> i < length p \<and> pf_revents (p ! i) \<noteq> {}"

lemma busy_drop: "busy i p = length (filter (\<lambda>r. r \<noteq> {}) (drop i (map pf_revents p)))"
  by (simp add: busy_def drop_map filter_map comp_def)

lemma busy_next: "i < length p \<Longrightarrow> busy i p = (if pf_revents (p ! i) = {} then 0 else 1) + busy (Suc i) p"
  by (simp add: busy_def Cons_nth_drop_Suc [symmetric])

lemma busy_Suc_le: "busy (Suc i) p \<le> busy i p"
  by (cases "i < length p") (simp_all add: busy_next, simp add: busy_def)

lemma drop_erase_at: "drop i (erase_at j p) = (if j \<le> i then drop (Suc i) p else erase_at (j - i) (drop i p))"
proof -
  consider "j \<le> i" "j \<le> length p" | "j \<le> i" "length p < j" | "i < j" by linarith
  then show ?thesis
    by cases (auto simp: erase_at_def drop_take Suc_diff_le min_def add.commute)
qed

lemma filter_erase_at: "length (filter P (erase_at j p)) \<le> length (filter P p)"
proof -
  have "length (filter P (take j p)) + length (filter P (drop j p)) = length (filter P p)"
    by (metis append_take_drop_id filter_append length_append)
  moreover have "length (filter P (drop (Suc j) p)) \<le> length (filter P (drop j p))"
    by (cases "j < length p") (simp_all add: Cons_nth_drop_Suc [symmetric])
  ultimately show ?thesis by (simp add: erase_at_def)
qed

lemma busy_erase: "busy i (erase_at j p) \<le> (if j \<le> i then busy (Suc i) p else busy i p)"
  by (simp add: busy_def drop_erase_at filter_erase_at)

lemma busy_evolves: "evolves p q \<Longrightarrow> busy i q \<le> busy i p"
proof (induction rule: evolves.induct)
  case (evolves_events q r)
  then show ?case by (simp add: busy_drop)
next
  case (evolves_added q fd b)
  then show ?case by (cases "i \<le> length q") (auto simp: busy_def poll_entry_def)
next
  case (evolves_erased q j)
  then show ?case using busy_erase [of i j q] busy_Suc_le [of i q] by (auto split: if_split_asm)
qed simp

lemma due_Suc: "due n i p \<Longrightarrow> busy (Suc i) p < n"
  using busy_next [of i p] busy_Suc_le [of i p] by (auto simp: due_def split: if_split_asm)

lemma due_erase: "due n i p \<Longrightarrow> j \<le> i \<Longrightarrow> busy i (erase_at j p) < n"
  using busy_erase [of i j p] due_Suc [of n i p] by simp

lemma due_evolves: "evolves p q \<Longrightarrow> due n i p \<Longrightarrow> due n i q"
proof (induction rule: evolves.induct)
  case (evolves_events q r)
  then show ?case by (simp add: due_def busy_drop) (metis length_map nth_map)
next
  case (evolves_added q fd b)
  then have "due n i q" by simp
  moreover have "busy i (q @ [poll_entry fd b]) \<le> busy i q" by (rule busy_evolves) (blast intro: evolves.intros)
  ultimately show ?case by (auto simp: due_def nth_append)
next
  case (evolves_erased q j)
  then have d: "due n i q" by simp
  show ?case
  proof (cases "j \<le> i")
    case True
    with due_erase [OF d] show ?thesis by (simp add: due_def)
  next
    case False
    with d busy_erase [of i j q] show ?thesis by (auto simp: due_def erase_at_def nth_append)
  qed
qed

lemma loses_due: "loses i p q \<Longrightarrow> due n i p \<Longrightarrow> busy i q < n"
  unfolding loses_def by (meson busy_evolves due_erase due_evolves le_less_trans)

lemma loses_busy: "loses i p q \<Longrightarrow> busy i q \<le> busy i p"
  unfolding loses_def by (meson busy_evolves evolves_erased order_trans)

section \<open>Every handler only does that\<close>

lemma map_update_same: "(map f p)[i := f (p ! i)] = map f p"
  by (metis list_update_id map_update)

lemma map_events_update [simp]:
  "map pf_revents (p[i := or_event b (p ! i)]) = map pf_revents p"
  "map pf_revents (p[i := drop_event b (p ! i)]) = map pf_revents p"
  "map pf_revents (p[i := (p ! i)\<lparr>pf_events := e\<rparr>]) = map pf_revents p"
  "map pf_fd (p[i := or_event b (p ! i)]) = map pf_fd p"
  "map pf_fd (p[i := drop_event b (p ! i)]) = map pf_fd p"
  "map pf_fd (p[i := (p ! i)\<lparr>pf_events := e\<rparr>]) = map pf_fd p"
  by (simp_all add: or_event_def drop_event_def map_update map_update_same)

lemma map_enable_fd [simp]:
  "map pf_revents (enable_fd fd b p) = map pf_revents p"
  "map pf_fd (enable_fd fd b p) = map pf_fd p"
  by (simp_all add: enable_fd_def split: option.split)

lemma evolves_map: "map pf_fd q = map pf_fd p \<Longrightarrow> map pf_revents q = map pf_revents p \<Longrightarrow> evolves p q"
  using evolves_events evolves_same by blast

lemma evolves_append [simp]:
  "evolves p (p @ [poll_entry fd b])"
  "evolves p (p @ [poll_entry fd b, poll_entry fd' b'])"
  using evolves_added [OF evolves_same] evolves_added [OF evolves_added [OF evolves_same]] by auto

lemma evolves_fd [intro]: "evolves p (erase_fd fd p)"
  by (auto simp: erase_fd_def intro: evolves.intros split: option.split)

lemma drop_poll_fd_evolves:
  "drop_poll_fd fd (p, i) = (q, j) \<Longrightarrow> evolves p q \<and> j \<le> i"
  by (auto simp: drop_poll_fd_def intro: evolves.intros split: option.split_asm)

lemma drop_cgi_evolves:
  assumes "drop_cgi_in cl (drop_cgi_out cl (s, i)) = (s', j)"
  shows "evolves (sv_poll s) (sv_poll s') \<and> j \<le> i"
proof -
  obtain s1 k where o: "drop_cgi_out cl (s, i) = (s1, k)" by (metis surj_pair)
  have "evolves (sv_poll s) (sv_poll s1) \<and> k \<le> i"
    using o by (auto simp: drop_cgi_out_def Let_def evolves_same split: if_split_asm prod.split_asm
        dest: drop_poll_fd_evolves)
  moreover have "evolves (sv_poll s1) (sv_poll s') \<and> j \<le> k"
    using assms o by (auto simp: drop_cgi_in_def Let_def evolves_same split: if_split_asm prod.split_asm
        dest: drop_poll_fd_evolves)
  ultimately show ?thesis using evolves_trans order_trans by blast
qed

lemma remove_client_loses:
  assumes "remove_client net i s w = Some (s', w')"
  shows "loses i (sv_poll s) (sv_poll s')"
proof (cases "get_client s (pf_fd (sv_poll s ! i))")
  case None
  with assms show ?thesis by (auto simp: remove_client_def Let_def loses_erase split: if_split_asm)
next
  case (Some cl)
  obtain s1 j where d: "drop_cgi_in cl (drop_cgi_out cl (s, i)) = (s1, j)" by (metis surj_pair)
  with assms Some have "sv_poll s' = erase_at j (sv_poll s1)"
    by (auto simp: remove_client_def Let_def put_client_def split: if_split_asm prod.split_asm)
  with drop_cgi_evolves [OF d] show ?thesis using evolves_loses loses_erase by metis
qed

lemma accept_client_evolves:
  assumes "accept_client net fd s w = Some (s', w')"
  shows "evolves (sv_poll s) (sv_poll s')"
proof -
  have "evolves p (sv_poll s) \<Longrightarrow> evolves p (sv_poll (foldl (\<lambda>s fd. add_client fd i now s) s fds))" for p i now fds s
    by (induction fds arbitrary: s) (simp_all add: add_client_def evolves_added)
  from this [OF evolves_same] show ?thesis
    using assms by (auto simp: accept_client_def Let_def split: if_split_asm prod.split_asm)
qed

lemma stream_output_evolves: "stream_output conf bytes c p = (c', p') \<Longrightarrow> evolves p p'"
  by (auto simp: stream_output_def Let_def intro!: evolves_map split: if_split_asm option.split_asm)

lemma cgi_output_loop_evolves:
  "cgi_output_loop net conf fd idx t c p w = (e, c', p', w') \<Longrightarrow> evolves p p'"
proof (induction net conf fd idx t c p w rule: cgi_output_loop.induct)
  case (1 net conf fd idx t c p w)
  note unfold = cgi_output_loop.simps [of net conf fd idx t c p w]
  obtain res w1 where r: "nt_read net fd w = (res, w1)" by (metis surj_pair)
  show ?case
  proof (cases "\<not> FAIR_IO_LIMIT \<le> t \<and> (\<exists>b bs. res = Got b bs)")
    case False
    with 1(2) r show ?thesis by (cases res) (auto simp: unfold evolves_same split: if_split_asm)
  next
    case True
    then obtain b bs where g: "res = Got b bs" and t: "\<not> FAIR_IO_LIMIT \<le> t" by blast
    obtain c1 p1 where s: "stream_output conf (b # bs) c p = (c1, p1)" by (metis surj_pair)
    show ?thesis
    proof (cases "CGI_BACKPRESSURE_LIMIT < cgi_send_pending_size c1")
      case True
      then have "p' = p1[idx := drop_event POLLIN (p1 ! idx)]" using 1(2) r g t s by (simp add: unfold)
      then show ?thesis
        using evolves_trans [OF _ stream_output_evolves [OF s]] by (simp add: evolves_map)
    next
      case False
      then have "cgi_output_loop net conf fd idx (t + length (b # bs)) c1 p1 w1 = (e, c', p', w')"
        using 1(2) r g t s by (simp add: unfold)
      from evolves_trans [OF 1(1) [OF t r [symmetric] g s [symmetric] refl False this] stream_output_evolves [OF s]]
      show ?thesis .
    qed
  qed
qed

text \<open>A handler that reports an index either moved past its entry or erased one.\<close>

definition advances :: "nat \<Rightarrow> pollfd list \<Rightarrow> nat \<Rightarrow> pollfd list \<Rightarrow> bool" where
  "advances i p j q \<longleftrightarrow> j = Suc i \<and> evolves p q \<or> j = i \<and> loses i p q"

lemma finalize_cgi_evolves:
  "finalize_cgi os net key c idx s w = (s', w') \<Longrightarrow> evolves (sv_poll s) (sv_poll s')"
  by (auto simp: finalize_cgi_def Let_def intro!: evolves_map split: if_split_asm prod.split_asm)

lemma handle_cgi_output_advances:
  assumes "handle_cgi_output os net idx s w = Some (i, s', w')"
  shows "advances idx (sv_poll s) i (sv_poll s')"
proof (cases "get_client_by_cgi_fd s (pf_fd (sv_poll s ! idx))")
  case None
  with assms show ?thesis
    by (auto simp: handle_cgi_output_def Let_def advances_def loses_erase split: if_split_asm)
next
  case (Some key)
  then obtain c where c: "get_client s key = Some c"
    by (auto simp: get_client_by_cgi_fd_def split: option.split_asm if_split_asm)
  obtain e c1 p1 w1 where l: "cgi_output_loop net (conf_of s c) (pf_fd (sv_poll s ! idx)) idx 0 c (sv_poll s) w
      = (e, c1, p1, w1)" by (metis prod_cases4)
  note evo = cgi_output_loop_evolves [OF l]
  show ?thesis
  proof (cases e)
    case False
    with assms Some c l evo show ?thesis
      by (auto simp: handle_cgi_output_def Let_def advances_def split: if_split_asm)
  next
    case True
    let ?s = "put_client key (c1\<lparr>cl_cgi_stdout_fd := - 1\<rparr>)
        (s\<lparr>sv_cgi_out := map_erase (pf_fd (sv_poll s ! idx)) (sv_cgi_out s), sv_poll := erase_at idx p1\<rparr>)"
    from True assms Some c l obtain ci w2 where
      "finalize_cgi os net key (c1\<lparr>cl_cgi_stdout_fd := - 1\<rparr>) ci ?s w2 = (s', w')"
      by (auto simp: handle_cgi_output_def Let_def split: if_split_asm prod.split_asm)
    from finalize_cgi_evolves [OF this] have "evolves (erase_at idx p1) (sv_poll s')" by simp
    moreover have "i = idx"
      using True assms Some c l
      by (auto simp: handle_cgi_output_def Let_def split: if_split_asm prod.split_asm)
    ultimately show ?thesis using evo unfolding advances_def loses_def by blast
  qed
qed

lemma handle_cgi_stdin_writable_advances:
  assumes "handle_cgi_stdin_writable net idx s w = Some (i, s', w')"
  shows "advances idx (sv_poll s) i (sv_poll s')"
proof (cases "\<exists>key c. map_of (sv_cgi_in s) (pf_fd (sv_poll s ! idx)) = Some key \<and> get_client s key = Some c")
  case False
  then consider "map_of (sv_cgi_in s) (pf_fd (sv_poll s ! idx)) = None"
    | key where "map_of (sv_cgi_in s) (pf_fd (sv_poll s ! idx)) = Some key" "get_client s key = None"
    by (meson not_None_eq)
  then have "i = idx \<and> sv_poll s' = erase_at idx (sv_poll s)"
    by cases (use assms in \<open>auto simp: handle_cgi_stdin_writable_def Let_def split: if_split_asm\<close>)
  then show ?thesis by (simp add: advances_def loses_erase)
next
  case True
  then obtain key c where k: "map_of (sv_cgi_in s) (pf_fd (sv_poll s ! idx)) = Some key"
    and c: "get_client s key = Some c" by blast
  obtain c1 w1 where l: "stdin_write_loop net (pf_fd (sv_poll s ! idx)) 0 c w = (c1, w1)" by (metis surj_pair)
  obtain fds c2 where cl: "close_cgi_stdin c1 = (fds, c2)" by (metis surj_pair)
  show ?thesis
  proof (cases "is_cgi_stdin_pending_empty c1 \<and> cl_stdin_eof c1")
    case True
    with assms k c l cl have "i = idx" "sv_poll s' = erase_at idx (sv_poll s)"
      by (auto simp: handle_cgi_stdin_writable_def Let_def split: if_split_asm)
    then show ?thesis by (simp add: advances_def loses_erase)
  next
    case False
    define p where "p = (if cgi_stdin_pending_size c1 < CGI_BACKPRESSURE_LIMIT
        then enable_fd (cl_fd c1) POLLIN (sv_poll s) else sv_poll s)"
    have "i = Suc idx" "sv_poll s' = (if is_cgi_stdin_pending_empty c1
        then p[idx := drop_event POLLOUT (p ! idx)] else p)"
      using assms k c l False by (auto simp: handle_cgi_stdin_writable_def Let_def p_def split: if_split_asm)
    then show ?thesis by (simp add: advances_def evolves_map p_def)
  qed
qed

lemma dispatch_cgi_evolves:
  assumes "dispatch_cgi os net key c idx s w = (s', w')"
  shows "evolves (sv_poll s) (sv_poll s')"
  using assms
proof (cases rule: dispatch_cgi_cases)
  case (started pid i out c1 body fin w1 c2)
  then show ?thesis by (auto simp: register_cgi_def Let_def)
qed (auto simp: dispatch_failed_def Let_def intro!: evolves_map)

lemma forward_bytes_evolves:
  "forward_bytes net fd fwd c s w = (c', s', w') \<Longrightarrow> evolves (sv_poll s) (sv_poll s')"
  by (auto simp: forward_bytes_def Let_def evolves_same intro: evolves_map
      split: if_split_asm prod.split_asm)

lemma body_ended_evolves:
  "body_ended net fd c s w = (c', s', w') \<Longrightarrow> evolves (sv_poll s) (sv_poll s')"
  by (auto simp: body_ended_def Let_def evolves_same split: if_split_asm prod.split_asm)

lemma forward_read_evolves:
  assumes "forward_read net bytes c s w = (b, c', s', w')"
  shows "evolves (sv_poll s) (sv_poll s')"
proof -
  have two: "evolves (sv_poll s) (sv_poll s')"
    if "forward_bytes net fd fwd c2 s w = (c3, s3, w3)"
      and "(if q then (False, body_ended net fd c3 s3 w3) else (True, c3, s3, w3)) = (b, c', s', w')"
    for c2 c3 s3 w3 fd fwd q
    using that forward_bytes_evolves [OF that(1)] body_ended_evolves [of net fd c3 s3 w3 c' s' w'] evolves_trans
    by (metis prod.inject)
  show ?thesis
    using assms two evolves_same
    by (auto simp: forward_read_def Let_def split: if_split_asm prod.split_asm bool.split_asm)
qed

lemma cgi_read_loop_evolves:
  "cgi_read_loop net idx t c s w = (c', s', w') \<Longrightarrow> evolves (sv_poll s) (sv_poll s')"
proof (induction net idx t c s w rule: cgi_read_loop.induct)
  case (1 net idx t c s w)
  note unfold = cgi_read_loop.simps [of net idx t c s w]
  obtain res w1 where r: "nt_read net (cl_fd c) w = (res, w1)" by (metis surj_pair)
  show ?case
  proof (cases "\<not> FAIR_IO_LIMIT \<le> t \<and> \<not> CGI_BACKPRESSURE_LIMIT < cgi_stdin_pending_size c \<and> (\<exists>x xs. res = Got x xs)")
    case False
    with 1(2) r show ?thesis
      by (cases res) (auto simp: unfold evolves_same evolves_map split: if_split_asm prod.split_asm)
  next
    case True
    then obtain x xs where g: "res = Got x xs" and t: "\<not> FAIR_IO_LIMIT \<le> t"
      and b: "\<not> CGI_BACKPRESSURE_LIMIT < cgi_stdin_pending_size c" by blast
    obtain more' c2 s2 w2 where f: "forward_read net (x # xs) c s w1 = (more', c2, s2, w2)" by (metis prod_cases4)
    show ?thesis
    proof (cases more')
      case True
      have "cgi_read_loop net idx (t + length (x # xs)) c2 s2 w2 = (c', s', w')"
        using 1(2) t b r g f True by (simp add: unfold)
      from 1(1) [OF t b r [symmetric] g f [symmetric] _ refl refl this] True
      show ?thesis using forward_read_evolves [OF f] evolves_trans by blast
    next
      case False
      with 1(2) t b r g f have "s' = s2" by (simp add: unfold)
      with forward_read_evolves [OF f] show ?thesis by simp
    qed
  qed
qed

lemma handle_input_evolves:
  assumes "handle_input os net gw key c bytes idx s w = Some (s', w')"
  shows "evolves (sv_poll s) (sv_poll s')"
  using assms
proof (cases rule: handle_input_cases)
  case (script c')
  show ?thesis by (rule dispatch_cgi_evolves [OF script(2)])
qed (auto simp: evolves_same intro!: evolves_map)

lemma handle_client_read_evolves:
  assumes "handle_client_read os net gw idx s w = Some (i, s', w')"
  shows "i \<in> {idx, Suc idx} \<and> evolves (sv_poll s) (sv_poll s')"
proof (cases "get_client s (pf_fd (sv_poll s ! idx))")
  case None
  with assms show ?thesis
    by (auto simp: handle_client_read_def Let_def evolves_same split: if_split_asm)
next
  case (Some c)
  let ?k = "pf_fd (sv_poll s ! idx)"
  show ?thesis
  proof (cases "cl_cgi_active c")
    case True
    obtain c1 s1 w1 where l: "cgi_read_loop net idx 0 c s w = (c1, s1, w1)" by (metis prod_cases3)
    with assms Some True have "i = idx \<and> s' = put_client ?k c1 s1"
      by (auto simp: handle_client_read_def Let_def split: if_split_asm)
    with cgi_read_loop_evolves [OF l] show ?thesis by simp
  next
    case False
    let ?c = "update_activity (nt_now net w) c"
    let ?s = "put_client ?k ?c s"
    obtain res w1 where r: "nt_read net (cl_fd ?c) w = (res, w1)" by (metis surj_pair)
    have i: "i = idx"
      using assms Some False r by (cases res) (auto simp: handle_client_read_def Let_def split: if_split_asm)
    from assms Some False r consider "s' = ?s" | "remove_client net idx ?s w1 = Some (s', w')"
      | bytes where "handle_input os net gw ?k ?c bytes idx ?s w1 = Some (s', w')"
      by (cases res) (auto simp: handle_client_read_def Let_def split: if_split_asm)
    then have "evolves (sv_poll s) (sv_poll s')"
    proof cases
      case 2
      from remove_client_loses [OF this] show ?thesis
        unfolding loses_def using evolves_trans evolves_erased by (metis configs_frame(2))
    next
      case 3
      from handle_input_evolves [OF this] show ?thesis by simp
    qed (simp add: evolves_same)
    with i show ?thesis by simp
  qed
qed

lemma send_loop_evolves:
  "send_loop net fd idx t c p w = (e, c', p', w') \<Longrightarrow> evolves p p'"
proof (induction net fd idx t c p w rule: send_loop.induct)
  case (1 net fd idx t c p w)
  note unfold = send_loop.simps [of net fd idx t c p w]
  obtain res w1 where r: "nt_send net fd (cgi_send_queue c) w = (res, w1)" by (metis surj_pair)
  show ?case
  proof (cases "\<not> FAIR_IO_LIMIT \<le> t \<and> cgi_send_pending_size c \<noteq> 0 \<and> (\<exists>m. res = Sent m)")
    case False
    with 1(2) r show ?thesis
      by (cases res) (auto simp: unfold Let_def evolves_same evolves_map split: if_split_asm)
  next
    case True
    then obtain m where m: "res = Sent m" and t: "\<not> FAIR_IO_LIMIT \<le> t" and z: "cgi_send_pending_size c \<noteq> 0"
      by blast
    let ?c = "update_activity (nt_now net w1) (consume_cgi_send_pending (Suc m) c)"
    have run: "send_loop net fd idx (t + Suc m) ?c (resume_output ?c p) w1 = (e, c', p', w')"
      using 1(2) t z r m by (simp add: unfold Let_def)
    have "evolves p (resume_output ?c p)" by (simp add: resume_output_def evolves_map evolves_same)
    with 1(1) [OF t z r [symmetric] m refl run] show ?thesis using evolves_trans by blast
  qed
qed

lemma send_response_advances:
  assumes "send_response net key c idx s w = Some (b, s', w')"
  shows "if b then loses idx (sv_poll s) (sv_poll s') else evolves (sv_poll s) (sv_poll s')"
proof -
  obtain res w1 where r: "nt_send net (cl_fd c) (drop (cl_response_offset c) (cl_response c)) w = (res, w1)"
    by (metis surj_pair)
  show ?thesis
  proof (cases res)
    case (Sent m)
    let ?c = "update_activity (nt_now net w1) (advance_response_offset (Suc m) c)"
    let ?s = "put_client key (clear_response ?c)
                (s\<lparr>sv_poll := (sv_poll s)[idx := drop_event POLLOUT (sv_poll s ! idx)]\<rparr>)"
    show ?thesis
    proof (cases "length (cl_response c) \<le> cl_response_offset ?c")
      case True
      then have rm: "b" "remove_client net idx ?s w1 = Some (s', w')"
        using assms r Sent by (auto simp: send_response_def Let_def)
      have "evolves (sv_poll s) (sv_poll ?s)" by (simp add: evolves_map)
      from evolves_loses [OF this remove_client_loses [OF rm(2)]] rm(1) show ?thesis by simp
    next
      case False
      with assms r Sent show ?thesis by (auto simp: send_response_def Let_def evolves_same)
    qed
  qed (use assms r in \<open>auto simp: send_response_def Let_def remove_client_loses\<close>)
qed

lemma handle_poll_output_advances:
  assumes "handle_poll_output net idx s w = Some (b, i, s', w')"
  shows "if b then advances idx (sv_poll s) i (sv_poll s') else i = idx \<and> evolves (sv_poll s) (sv_poll s')"
proof (cases "POLLOUT \<in> pf_revents (sv_poll s ! idx) \<and> \<not> isCgiStdinFd s (pf_fd (sv_poll s ! idx))")
  case False
  with assms show ?thesis
    by (auto simp: handle_poll_output_def Let_def evolves_same handle_cgi_stdin_writable_advances
        split: if_split_asm)
next
  case True
  let ?k = "pf_fd (sv_poll s ! idx)"
  show ?thesis
  proof (cases "get_client s ?k")
    case None
    with assms True show ?thesis
      by (auto simp: handle_poll_output_def Let_def evolves_same split: if_split_asm)
  next
    case (Some c)
    obtain ex c1 p1 w1 where l: "send_loop net ?k idx 0 c (sv_poll s) w = (ex, c1, p1, w1)"
      by (metis prod_cases4)
    let ?s = "put_client ?k c1 (s\<lparr>sv_poll := p1\<rparr>)"
    have s: "evolves (sv_poll s) (sv_poll ?s)" using send_loop_evolves [OF l] by simp
    have i: "i = idx"
      using assms True Some l by (auto simp: handle_poll_output_def Let_def split: if_split_asm send_exit.split_asm)
    consider "\<not> b" "s' = ?s" | "b" "remove_client net idx ?s w1 = Some (s', w')" | "\<not> b" "s' = s"
      | "send_response net ?k c idx s w = Some (b, s', w')"
      using assms True Some l
      by (auto simp: handle_poll_output_def Let_def split: if_split_asm send_exit.split_asm)
    then show ?thesis
    proof cases
      case 2
      from evolves_loses [OF s remove_client_loses [OF this(2)]] show ?thesis using 2 i by (simp add: advances_def)
    next
      case 4
      from send_response_advances [OF this] show ?thesis using i by (simp add: advances_def split: if_splits)
    qed (use s i in \<open>simp_all add: evolves_same\<close>)
  qed
qed

lemma handle_poll_errors_advances:
  assumes "handle_poll_errors net idx s w = Some (b, s', w')"
  shows "if b then loses idx (sv_poll s) (sv_poll s') else s' = s \<and> w' = w"
proof -
  let ?fd = "pf_fd (sv_poll s ! idx)"
  have closed: "sv_poll s1 = sv_poll s0"
    if "(case map_of (sv_cgi_in s) ?fd of
           None \<Rightarrow> (s0, w0)
         | Some key \<Rightarrow>
            (case get_client s key of
               None \<Rightarrow> (s0, w0)
             | Some c \<Rightarrow> let (fds, c) = close_cgi_stdin c in (put_client key c s0, close_all net fds w0)))
         = (s1, w1)" for s0 w0 s1 w1
    using that by (auto split: option.split_asm prod.split_asm)
  show ?thesis
    using assms
    by (auto simp: handle_poll_errors_def Let_def loses_erase remove_client_loses split: if_split_asm prod.split_asm
        dest!: closed)
qed

lemma handle_poll_input_advances:
  assumes "handle_poll_input os net gw idx s w = Some (b, i, s', w')"
  shows "if b then advances idx (sv_poll s) i (sv_poll s')
         else i \<in> {idx, Suc idx} \<and> evolves (sv_poll s) (sv_poll s')"
  using assms
  by (auto simp: handle_poll_input_def Let_def evolves_same accept_client_evolves advances_def
      split: if_split_asm dest: handle_cgi_output_advances [unfolded advances_def] handle_client_read_evolves)

lemma loses_evolves_only: "loses i p q \<Longrightarrow> evolves p q"
  unfolding loses_def using evolves_trans evolves_erased by blast

lemma advances_evolves: "advances i p j q \<Longrightarrow> evolves p q"
  unfolding advances_def using loses_evolves_only by blast

text \<open>So every entry is one that was there, under the same descriptor, or it has no \<open>revents\<close>.\<close>

lemma evolves_entry:
  "evolves p q \<Longrightarrow> x \<in> set q \<Longrightarrow>
     pf_revents x = {} \<or> (\<exists>y \<in> set p. pf_fd y = pf_fd x \<and> pf_revents y = pf_revents x)"
proof (induction arbitrary: x rule: evolves.induct)
  case (evolves_events q r)
  from evolves_events.prems obtain i where i: "i < length r" "x = r ! i" by (metis in_set_conv_nth)
  from evolves_events.hyps have l: "length r = length q" by (metis length_map)
  have "pf_fd (q ! i) = pf_fd x" "pf_revents (q ! i) = pf_revents x"
    using evolves_events.hyps i l by (metis nth_map)+
  with evolves_events.IH [of "q ! i"] i l show ?case by simp
next
  case (evolves_erased q i)
  have "set (erase_at i q) \<subseteq> set q"
    using set_take_subset set_drop_subset by (fastforce simp: erase_at_def)
  with evolves_erased show ?case by blast
qed (auto simp: poll_entry_def)

section \<open>The scan ends\<close>

lemma advances_due: "advances i p j q \<Longrightarrow> due n i p \<Longrightarrow> busy j q < n"
  unfolding advances_def using due_Suc due_evolves loses_due by blast

lemma advances_busy: "advances i p j q \<Longrightarrow> busy i p < n \<Longrightarrow> busy j q < n"
  unfolding advances_def using busy_Suc_le busy_evolves loses_busy by (meson le_less_trans)

lemma output_busy:
  assumes "handle_poll_output net j s w = Some (b, i, s', w')" and "due n j (sv_poll s) \<or> busy j (sv_poll s) < n"
  shows "if b then busy i (sv_poll s') < n else busy (Suc i) (sv_poll s') < n"
  using handle_poll_output_advances [OF assms(1)] assms(2) advances_due advances_busy
    due_Suc due_evolves busy_evolves busy_Suc_le
  by (metis le_less_trans)

text \<open>A turn on an entry with \<open>revents\<close> uses it up; a turn on one without moves to the next.\<close>

lemma scan_turn_busy:
  assumes "scan_turn os net gw idx s w = Some (i, s', w')" and "idx < length (sv_poll s)"
    and "pf_revents (sv_poll s ! idx) \<noteq> {}"
  shows "busy i (sv_poll s') < busy idx (sv_poll s)"
proof -
  let ?n = "busy idx (sv_poll s)"
  have d: "due ?n idx (sv_poll s)" using assms(2,3) by (simp add: due_def)
  have step: "due ?n j (sv_poll s2) \<or> busy j (sv_poll s2) < ?n"
    if "handle_poll_errors net idx s w = Some (False, s1, w1)"
      and "handle_poll_input os net gw idx s1 w1 = Some (False, j, s2, w2)" for s1 w1 j s2 w2
    using handle_poll_errors_advances [OF that(1)] handle_poll_input_advances [OF that(2)] d
      due_evolves due_Suc by auto
  show ?thesis
    using assms(1)
  proof (cases rule: scan_turn_cases)
    case errors
    with handle_poll_errors_advances [OF errors(1)] d show ?thesis by (simp add: loses_due)
  next
    case (input s1 w1)
    with handle_poll_errors_advances [OF input(1)] handle_poll_input_advances [OF input(2)] d
    show ?thesis by (simp add: advances_due)
  next
    case (output_done s1 w1 j s2 w2)
    from output_busy [OF output_done(3) step [OF output_done(1,2)]] show ?thesis by simp
  next
    case (next_entry s1 w1 j s2 w2 k s3)
    from output_busy [OF next_entry(3) step [OF next_entry(1,2)]] next_entry(4-6)
    show ?thesis by (simp add: busy_def)
  qed
qed

lemma scan_turn_idle:
  assumes "scan_turn os net gw idx s w = Some (i, s', w')" and "idx < length (sv_poll s)"
    and "pf_revents (sv_poll s ! idx) = {}"
  shows "i = Suc idx \<and> s' = s"
proof -
  have "(sv_poll s ! idx)\<lparr>pf_revents := {}\<rparr> = sv_poll s ! idx" using assms(3) by (cases "sv_poll s ! idx") simp
  with assms show ?thesis
    by (simp add: scan_turn_def handle_poll_errors_def handle_poll_input_def handle_poll_output_def Let_def)
qed

text \<open>
  C8. The scan over the \<open>poll\<close> vector ends, although its handlers erase and append entries while the index
  runs: from every state, whatever the kernel answers, finitely many turns lead past the last entry or
  to a turn that indexes the vector outside its bounds.
\<close>

theorem scan_ends:
  "\<exists>i' s' w'. (server_step os net gw)\<^sup>*\<^sup>* (Scanning i, s, w) (Scanning i', s', w') \<and>
     (length (sv_poll s') \<le> i' \<or> scan_turn os net gw i' s' w' = None)"
proof (induction "(i, s, w)" arbitrary: i s w
    rule: wf_induct [of "measures [\<lambda>(i, s, w). busy i (sv_poll s), \<lambda>(i, s, w). length (sv_poll s) - i]"])
  case (2 i s w)
  show ?case
  proof (cases "length (sv_poll s) \<le> i \<or> scan_turn os net gw i s w = None")
    case False
    then obtain j s1 w1 where t: "scan_turn os net gw i s w = Some (j, s1, w1)" and i: "i < length (sv_poll s)"
      by auto
    have "busy j (sv_poll s1) < busy i (sv_poll s) \<or>
        busy j (sv_poll s1) = busy i (sv_poll s) \<and> length (sv_poll s1) - j < length (sv_poll s) - i"
    proof (cases "pf_revents (sv_poll s ! i) = {}")
      case True
      with scan_turn_idle [OF t i] busy_next [OF i] i show ?thesis by auto
    qed (use scan_turn_busy [OF t i] in simp)
    with 2 have "\<exists>i' s' w'. (server_step os net gw)\<^sup>*\<^sup>* (Scanning j, s1, w1) (Scanning i', s', w') \<and>
        (length (sv_poll s') \<le> i' \<or> scan_turn os net gw i' s' w' = None)"
      by (elim disjE) simp_all
    moreover have "server_step os net gw (Scanning i, s, w) (Scanning j, s1, w1)"
      using i t by (rule server_step.turn)
    ultimately show ?thesis by (meson converse_rtranclp_into_rtranclp)
  qed blast
qed simp

end
