(* ===== verification/ServerDemo.thy ===== *)
theory ServerDemo
  imports ServerScan HandlerWire
begin

text \<open>
  A concrete kernel for the witnesses: its world holds the answers still to be given by \<open>poll\<close>,
  \<open>accept\<close>, \<open>read\<close> and by \<open>write\<close> and \<open>send\<close> (how many bytes they take), and logs what is written to
  and closed on each descriptor. Beside it, what the server relies on from \<open>write\<close> and \<open>send\<close> when a
  property speaks of the bytes that arrive at the other end.
\<close>

record feed =
  fd_time :: int
  fd_polls :: "poll_bit set list list"
  fd_accepts :: "int list"
  fd_reads :: "read_result list"
  fd_takes :: "nat list"
  fd_next :: int
  fd_log :: "(int \<times> string) list"
  fd_closed :: "int list"

definition new_feed :: "poll_bit set list list \<Rightarrow> read_result list \<Rightarrow> nat list \<Rightarrow> feed" where
  "new_feed polls reads takes =
     \<lparr>fd_time = 0, fd_polls = polls, fd_accepts = [9], fd_reads = reads, fd_takes = takes, fd_next = 3,
      fd_log = [], fd_closed = []\<rparr>"

definition feed_take :: "int \<Rightarrow> string \<Rightarrow> feed \<Rightarrow> nat \<times> feed" where
  "feed_take fd b w =
     (let n = (case fd_takes w of [] \<Rightarrow> length b | n # ns \<Rightarrow> min n (length b))
      in (n, w\<lparr>fd_takes := tl (fd_takes w), fd_log := fd_log w @ [(fd, take n b)]\<rparr>))"

definition feed_net :: "feed net" where
  "feed_net =
     \<lparr>nt_now = fd_time, nt_looping = (\<lambda>w. fd_polls w \<noteq> []),
      nt_socket = (\<lambda>w. (Some (fd_next w), w\<lparr>fd_next := fd_next w + 1\<rparr>)),
      nt_bind = (\<lambda>fd port w. (True, w)), nt_listen = (\<lambda>fd w. (True, w)),
      nt_accept = (\<lambda>fd w. (fd_accepts w, w\<lparr>fd_accepts := []\<rparr>)),
      nt_poll = (\<lambda>p w. case fd_polls w of [] \<Rightarrow> (Poll_Failed, w)
                       | r # rs \<Rightarrow> (Polled r, w\<lparr>fd_polls := rs\<rparr>)),
      nt_read = (\<lambda>fd w. case fd_reads w of [] \<Rightarrow> (Again, w) | r # rs \<Rightarrow> (r, w\<lparr>fd_reads := rs\<rparr>)),
      nt_write = feed_take,
      nt_send = (\<lambda>fd b w. let (n, w') = feed_take fd b w
                           in (case n of 0 \<Rightarrow> (Send_Again, w) | Suc m \<Rightarrow> (Sent m, w'))),
      nt_close = (\<lambda>fd w. w\<lparr>fd_closed := fd_closed w @ [fd]\<rparr>),
      nt_pipe = (\<lambda>w. (Some (fd_next w, fd_next w + 1), w\<lparr>fd_next := fd_next w + 2\<rparr>)),
      nt_fork = (\<lambda>l w. (Some 77, w)), nt_wait = (\<lambda>pid w. w)\<rparr>"

definition feed_sys :: "feed sys" where
  "feed_sys =
     \<lparr>sys_stat = (\<lambda>_ _. None), sys_exists = (\<lambda>_ _. False), sys_readable = (\<lambda>_ _. False),
      sys_writable = (\<lambda>_ _. False), sys_read_file = (\<lambda>_ _. None),
      sys_list_dir = (\<lambda>_ _. None), sys_write_file = (\<lambda>_ _ _. None),
      sys_append_file = (\<lambda>_ _ _. None), sys_unlink = (\<lambda>_ _. None),
      sys_stale_isdir = (\<lambda>_ _. False), sys_realpath = (\<lambda>_ _. None)\<rparr>"

text \<open>What has arrived at the other end of a descriptor.\<close>

definition feed_out :: "int \<Rightarrow> feed \<Rightarrow> string" where
  "feed_out fd w = concat (map snd (filter (\<lambda>e. fst e = fd) (fd_log w)))"

text \<open>
  Documented behaviour of \<open>write\<close> and \<open>send\<close>, for an observation of what has arrived at the other end
  of each descriptor: the bytes they report as taken arrive behind those before them, in order, and no
  other call adds any.
\<close>

definition wired :: "'w net \<Rightarrow> (int \<Rightarrow> 'w \<Rightarrow> string) \<Rightarrow> bool" where
  "wired net out \<longleftrightarrow> net_ok net \<and>
     (\<forall>fd b w n w'. nt_write net fd b w = (n, w') \<longrightarrow>
        out fd w' = out fd w @ take n b \<and> (\<forall>fd'. fd' \<noteq> fd \<longrightarrow> out fd' w' = out fd' w)) \<and>
     (\<forall>fd b w n w'. nt_send net fd b w = (Sent n, w') \<longrightarrow>
        out fd w' = out fd w @ take (Suc n) b \<and> (\<forall>fd'. fd' \<noteq> fd \<longrightarrow> out fd' w' = out fd' w)) \<and>
     (\<forall>fd b w w'. nt_send net fd b w \<in> {(Send_Again, w'), (Send_Failed, w')} \<longrightarrow>
        (\<forall>fd'. out fd' w' = out fd' w)) \<and>
     (\<forall>fd w fd'. out fd' (nt_close net fd w) = out fd' w) \<and>
     (\<forall>pid w fd'. out fd' (nt_wait net pid w) = out fd' w) \<and>
     (\<forall>w r w' fd'. nt_pipe net w = (r, w') \<longrightarrow> out fd' w' = out fd' w) \<and>
     (\<forall>l w r w' fd'. nt_fork net l w = (r, w') \<longrightarrow> out fd' w' = out fd' w)"

lemma wiredD:
  assumes "wired net out"
  shows "net_ok net"
    and "nt_write net fd b w = (n, w') \<Longrightarrow> out fd w' = out fd w @ take n b"
    and "nt_send net fd b w = (Sent n, w') \<Longrightarrow> out fd w' = out fd w @ take (Suc n) b"
    and "nt_send net fd b w = (Send_Again, w') \<Longrightarrow> out fd' w' = out fd' w"
    and "nt_send net fd b w = (Send_Failed, w') \<Longrightarrow> out fd' w' = out fd' w"
    and "out fd' (nt_close net fd w) = out fd' w"
    and "out fd' (nt_wait net pid w) = out fd' w"
    and "nt_pipe net w = (pr, w') \<Longrightarrow> out fd' w' = out fd' w"
    and "nt_fork net l w = (fr, w') \<Longrightarrow> out fd' w' = out fd' w"
  using assms by (auto simp: wired_def)

lemma wired_close_all: "wired net out \<Longrightarrow> out fd (close_all net fds w) = out fd w"
  unfolding close_all_def by (induction fds arbitrary: w) (simp_all add: wiredD)

lemma wired_wait_all: "wired net out \<Longrightarrow> out fd (wait_all net pids w) = out fd w"
  unfolding wait_all_def by (induction pids arbitrary: w) (simp_all add: wiredD)

lemma feed_net_ok: "net_ok feed_net"
  by (auto simp: net_ok_def feed_net_def feed_take_def Let_def split: list.split nat.split_asm prod.split_asm
      if_split_asm list.split_asm)

lemma feed_wired: "wired feed_net feed_out"
  using feed_net_ok
  by (auto simp: wired_def feed_net_def feed_take_def feed_out_def Let_def
      split: list.split_asm nat.split_asm if_split_asm)

text \<open>A server with one listening socket, and one whose only client has connected.\<close>

definition demo_server :: "server_config \<Rightarrow> server" where
  "demo_server conf = fst (new_server_object feed_net [conf] (new_feed [] [] []))"

definition demo_client :: "server_config \<Rightarrow> server" where
  "demo_client conf = add_client 9 0 0 (demo_server conf)"

end
