(* ===== verification/ServerProps.thy ===== *)
theory ServerProps
  imports ServerDemo
begin

section \<open>The invariant in every state of the loop\<close>

lemma step_keeps_inv:
  assumes "net_ok net" and "server_step os net gw (ph, s, w) (ph', s', w')" and "server_inv s"
  shows "server_inv s' \<and> sv_configs s' = sv_configs s"
  using assms(2)
proof (cases rule: server_step.cases)
  case (turn i j)
  show ?thesis by (rule scan_turn_ok [OF assms(1,3) turn(4)])
next
  case (expire i now)
  show ?thesis by (rule inv_remove [OF assms(3) expire(5)])
qed (use assms(3) in simp_all)

lemma loop_keeps_inv:
  assumes "net_ok net" and "new_server_object net configs w0 = (s0, w1)"
    and "(server_step os net gw)\<^sup>*\<^sup>* (Polling, s0, w1) (ph, s, w)"
  shows "server_inv s \<and> sv_configs s = configs"
proof -
  let ?P = "\<lambda>x. server_inv (fst (snd x)) \<and> sv_configs (fst (snd x)) = configs"
  have "?P (ph, s, w)"
  proof (rule event_loop.invariant [OF assms(3), of ?P])
    show "?P (Polling, s0, w1)" using new_server_object_ok [OF assms(2)] by simp
    show "?P v" if "server_step os net gw u v" "?P u" for u v
      using that step_keeps_inv [OF assms(1)] by (cases u; cases v) auto
  qed
  then show ?thesis by simp
qed

text \<open>
  C6. The client table is consistent at every moment of the event loop: in each state the loop reaches
  from a fresh server object, every client is stored under its own descriptor, belongs to a
  configuration that exists, and its three offsets are inside their buffers (so no pointer the handlers
  pass to \<open>write\<close> or \<open>send\<close> leaves its string); the listening sockets are numbered in the order of the
  configurations, and these never change.
\<close>

theorem server_invariant:
  assumes "net_ok net" and "new_server_object net configs w0 = (s0, w1)"
    and "(server_step os net gw)\<^sup>*\<^sup>* (Polling, s0, w1) (ph, s, w)"
  shows "server_inv s \<and> sv_configs s = configs"
  by (rule loop_keeps_inv [OF assms])

text \<open>A run in which the listening socket becomes readable and a client is accepted.\<close>

definition demo_accepts :: "feed sys \<Rightarrow> server_config list \<Rightarrow> bool" where
  "demo_accepts os confs =
     (case new_server_object feed_net confs (new_feed [[{POLLIN}]] [] []) of (s, w) \<Rightarrow>
        nt_looping feed_net w \<and>
        nt_poll feed_net (sv_poll s) w = (Polled [{POLLIN}], w\<lparr>fd_polls := []\<rparr>) \<and>
        0 < length (set_revents [{POLLIN}] (sv_poll s)) \<and>
        (case scan_turn os feed_net silent_gateway 0
           (s\<lparr>sv_poll := set_revents [{POLLIN}] (sv_poll s)\<rparr>) (w\<lparr>fd_polls := []\<rparr>) of
          None \<Rightarrow> False | Some (i, s, w) \<Rightarrow> get_client s 9 \<noteq> None))"

lemma demo_run:
  assumes "demo_accepts os confs"
  shows "\<exists>i s w c. (server_step os feed_net silent_gateway)\<^sup>*\<^sup>*
      (Polling, new_server_object feed_net confs (new_feed [[{POLLIN}]] [] [])) (Scanning i, s, w) \<and>
    get_client s 9 = Some c"
proof -
  let ?step = "server_step os feed_net silent_gateway"
  obtain s0 w0 where st: "new_server_object feed_net confs (new_feed [[{POLLIN}]] [] []) = (s0, w0)"
    by (metis surj_pair)
  let ?s = "s0\<lparr>sv_poll := set_revents [{POLLIN}] (sv_poll s0)\<rparr>" and ?w = "w0\<lparr>fd_polls := []\<rparr>"
  note a = assms [unfolded demo_accepts_def st prod.case]
  have 1: "?step (Polling, s0, w0) (Scanning 0, ?s, ?w)" and len: "0 < length (sv_poll ?s)"
    using a by (auto intro: server_step.polled)
  obtain i s w c where t: "scan_turn os feed_net silent_gateway 0 ?s ?w = Some (i, s, w)"
    and c: "get_client s 9 = Some c" using a by (auto split: option.split_asm)
  have "?step\<^sup>*\<^sup>* (Polling, s0, w0) (Scanning i, s, w)"
    using 1 server_step.turn [OF len t] by (meson converse_rtranclp_into_rtranclp rtranclp.rtrancl_refl)
  with c st show ?thesis by auto
qed

theorem server_invariant_witness:
  "\<exists>s c. get_client s 9 = Some c \<and> server_inv s \<and> sv_configs s = [new_server]"
proof -
  obtain s0 w0 where st: "new_server_object feed_net [new_server] (new_feed [[{POLLIN}]] [] []) = (s0, w0)"
    by (metis surj_pair)
  have "demo_accepts feed_sys [new_server]" by code_simp
  from demo_run [OF this] st obtain i s w c where
    run: "(server_step feed_sys feed_net silent_gateway)\<^sup>*\<^sup>* (Polling, s0, w0) (Scanning i, s, w)"
    and c: "get_client s 9 = Some c" by auto
  from server_invariant [OF feed_net_ok st run] c show ?thesis by blast
qed

section \<open>A client that disconnects\<close>

text \<open>
  C14. A disconnect makes the scan index the \<open>poll\<close> vector outside its bounds: when the last entry is a
  client without a script, and reading from it gives end of file, \<open>handle_client_read\<close> removes the entry
  and reports nothing, so \<open>handle_poll_output\<close> is called with the old index, which is now the size of the
  vector. The behaviour of \<open>start\<close> is undefined from there on, whatever else the kernel does.
\<close>

theorem disconnect_leaves_vector:
  assumes "sv_poll s = ps @ [p]" and "pf_revents p = {POLLIN}"
    and "\<not> isListeningSocket s (pf_fd p)" and "\<not> isCgiFd s (pf_fd p)" and "\<not> isCgiStdinFd s (pf_fd p)"
    and "get_client s (pf_fd p) = Some c" and "\<not> cl_cgi_active c"
    and "cl_cgi_stdin_fd c = - 1" and "cl_cgi_stdout_fd c = - 1"
    and "nt_read net (cl_fd c) w = (Eof, w')"
  shows "scan_turn os net gw (length ps) s w = None \<and> scan os net gw (length ps) s w = None"
proof -
  let ?c = "update_activity (nt_now net w) c"
  have c: "get_client (put_client (pf_fd p) ?c s) (pf_fd p) = Some ?c"
    by (simp add: get_client_def put_client_def map_of_map_put)
  obtain fds pids c2 where f: "finish_cgi ?c = (fds, pids, c2)" by (metis prod_cases3)
  have d: "drop_cgi_in ?c (drop_cgi_out ?c x) = x" for x
    using assms(8,9) by (cases x) (simp add: drop_cgi_in_def drop_cgi_out_def update_activity_def)
  obtain s1 w1 where r: "remove_client net (length ps) (put_client (pf_fd p) ?c s) w' = Some (s1, w1)"
      and l: "sv_poll s1 = ps"
    using assms(1) c f d by (simp add: remove_client_def erase_at_def Let_def)
  have "scan_turn os net gw (length ps) s w = None"
    using assms r l
    by (simp add: scan_turn_def handle_poll_errors_def handle_poll_input_def handle_client_read_def
        handle_poll_output_def Let_def update_activity_def)
  then show ?thesis using assms(1) by (simp add: scan.simps [of os net gw "length ps"])
qed

theorem disconnect_leaves_vector_witness:
  "let s = (demo_client new_server)\<lparr>sv_poll := [poll_entry 3 POLLIN, (poll_entry 9 POLLIN)\<lparr>pf_revents := {POLLIN}\<rparr>]\<rparr>
   in scan_turn feed_sys feed_net silent_gateway 1 s (new_feed [] [Eof] []) = None \<and>
      scan feed_sys feed_net silent_gateway 1 s (new_feed [] [Eof] []) = None"
proof -
  let ?s = "(demo_client new_server)\<lparr>sv_poll := [poll_entry 3 POLLIN, (poll_entry 9 POLLIN)\<lparr>pf_revents := {POLLIN}\<rparr>]\<rparr>"
  have "\<not> isListeningSocket ?s 9" "\<not> isCgiFd ?s 9" "\<not> isCgiStdinFd ?s 9" "get_client ?s 9 = Some (new_client 9 0 0)"
    by code_simp+
  then show ?thesis
    using disconnect_leaves_vector [of ?s "[poll_entry 3 POLLIN]" "(poll_entry 9 POLLIN)\<lparr>pf_revents := {POLLIN}\<rparr>"
        "new_client 9 0 0" feed_net "new_feed [] [Eof] []" "new_feed [] [] []" feed_sys silent_gateway]
    by (simp add: poll_entry_def new_client_def feed_net_def new_feed_def)
qed

section \<open>The output of a script\<close>

definition stream_all :: "server_config \<Rightarrow> string list \<Rightarrow> client \<Rightarrow> pollfd list \<Rightarrow> client \<times> pollfd list" where
  "stream_all conf pieces c p = foldl (\<lambda>(c, p) bytes. stream_output conf bytes c p) (c, p) pieces"

text \<open>The reference: what the client is to get for the whole output of a script.\<close>

definition script_reply :: "server_config \<Rightarrow> string \<Rightarrow> string" where
  "script_reply conf raw =
     (case find_sub crlf2 raw of
        None \<Rightarrow> []
      | Some h \<Rightarrow>
          header_to_string (set_header ''Connection'' ''close'' (parse_cgi_headers (take h raw) conf))
          @ drop (h + 4) raw)"

lemma script_reply_append:
  "find_sub crlf2 raw \<noteq> None \<Longrightarrow> script_reply conf (raw @ bytes) = script_reply conf raw @ bytes"
proof -
  assume "find_sub crlf2 raw \<noteq> None"
  then obtain h where h: "find_sub crlf2 raw = Some h" by blast
  have "length crlf2 = 4" by simp
  with find_sub_bound [OF h] have "h + 4 \<le> length raw" by simp
  with h find_sub_append [OF h, of bytes] show ?thesis by (simp add: script_reply_def)
qed

lemma stream_output_headers:
  assumes "stream_output conf bytes c p = (c', p')" and "\<not> cl_headers_sent c"
  shows "cl_send_pending c' = cl_send_pending c @ script_reply conf (cl_cgi_output c @ bytes) \<and>
    cl_headers_sent c' = (find_sub crlf2 (cl_cgi_output c @ bytes) \<noteq> None) \<and>
    cl_cgi_output c' = cl_cgi_output c @ bytes"
  using assms
  by (auto simp: stream_output_def script_reply_def append_cgi_output_def append_cgi_send_pending_def
      substr_def Let_def split: option.split_asm if_split_asm)

text \<open>
  C10. Streaming a script's output is independent of how \<open>read\<close> cuts it: after any pieces the bytes queued
  for the client are those of the reference, the response head built from the script's header as soon as
  the pieces contain a blank line, followed by everything behind it, and nothing before.
\<close>

theorem script_output_streamed:
  assumes "stream_all conf pieces c p = (c', p')" and "\<not> cl_headers_sent c" and "cl_cgi_output c = []"
  shows "cl_send_pending c' = cl_send_pending c @ script_reply conf (concat pieces) \<and>
    cl_headers_sent c' = (find_sub crlf2 (concat pieces) \<noteq> None)"
proof -
  have "cl_send_pending c' = cl_send_pending c @ script_reply conf (concat pieces) \<and>
      cl_headers_sent c' = (find_sub crlf2 (concat pieces) \<noteq> None) \<and>
      (\<not> cl_headers_sent c' \<longrightarrow> cl_cgi_output c' = concat pieces)"
    using assms(1)
  proof (induction pieces arbitrary: c' p' rule: rev_induct)
    case Nil
    with assms show ?case by (simp add: stream_all_def script_reply_def)
  next
    case (snoc bytes pieces)
    obtain c1 p1 where s: "stream_all conf pieces c p = (c1, p1)" by (metis surj_pair)
    have b: "stream_output conf bytes c1 p1 = (c', p')"
      using snoc.prems s by (simp add: stream_all_def)
    note IH = snoc.IH [OF s]
    show ?case
    proof (cases "cl_headers_sent c1")
      case True
      with b have "cl_send_pending c' = cl_send_pending c1 @ bytes" "cl_headers_sent c'"
        by (auto simp: stream_output_def append_cgi_send_pending_def)
      with IH True show ?thesis
        by (auto simp: script_reply_append dest: find_sub_append)
    next
      case False
      with IH have o: "cl_cgi_output c1 = concat pieces" and n: "script_reply conf (concat pieces) = []"
        by (auto simp: script_reply_def)
      from stream_output_headers [OF b False] IH n show ?thesis unfolding o by simp
    qed
  qed
  then show ?thesis by blast
qed

theorem script_output_streamed_witness:
  "cl_send_pending (fst (stream_all new_server
       [''Content-Type: text/plain'' @ [CR], [LF, CR, LF, CHR ''h''], ''i''] (start_cgi 1 4 5 (new_client 9 0 0)) [])) =
     script_reply new_server (''Content-Type: text/plain'' @ [CR, LF, CR, LF] @ ''hi'')"
proof -
  obtain c p where r: "stream_all new_server [''Content-Type: text/plain'' @ [CR], [LF, CR, LF, CHR ''h''], ''i'']
      (start_cgi 1 4 5 (new_client 9 0 0)) [] = (c, p)" by (metis surj_pair)
  from script_output_streamed [OF r] r show ?thesis by (simp add: start_cgi_def)
qed

section \<open>Bytes in order\<close>

lemma send_loop_order:
  "send_loop net fd idx t c p w = (e, c', p', w') \<Longrightarrow> wired net out \<Longrightarrow> send_queue_ok c \<Longrightarrow>
     out fd w' @ cgi_send_queue c' = out fd w @ cgi_send_queue c"
proof (induction net fd idx t c p w rule: send_loop.induct)
  case (1 net fd idx t c p w)
  note unfold = send_loop.simps [of net fd idx t c p w]
  obtain res w1 where r: "nt_send net fd (cgi_send_queue c) w = (res, w1)" by (metis surj_pair)
  have clr: "cgi_send_queue (clear_response c) = cgi_send_queue c" by (simp add: clear_response_def send_queue_drop)
  show ?case
  proof (cases "\<not> FAIR_IO_LIMIT \<le> t \<and> cgi_send_pending_size c \<noteq> 0")
    case False
    with 1(2) clr show ?thesis by (auto simp: unfold Let_def split: if_split_asm)
  next
    case True
    then have t: "\<not> FAIR_IO_LIMIT \<le> t" and z: "cgi_send_pending_size c \<noteq> 0" by auto
    then have ne: "cgi_send_queue c \<noteq> []" using length_send_queue [of c] by auto
    show ?thesis
    proof (cases res)
      case (Sent m)
      let ?c = "update_activity (nt_now net w1) (consume_cgi_send_pending (Suc m) c)"
      have run: "send_loop net fd idx (t + Suc m) ?c (resume_output ?c p) w1 = (e, c', p', w')"
        using 1(2) t z r Sent by (simp add: unfold Let_def)
      have m: "Suc m \<le> length (cgi_send_queue c)"
        by (rule net_ok_send [OF wiredD(1) [OF 1(3)] r [unfolded Sent] ne])
      have q: "send_queue_ok ?c" "cgi_send_queue ?c = drop (Suc m) (cgi_send_queue c)"
        using send_queue.pop_valid [OF 1(4) m] send_queue.pop_content [OF 1(4) m]
        by (simp_all add: update_activity_def send_queue_ok_def send_queue_drop)
      from 1(1) [OF t z r [symmetric] Sent refl run 1(3) q(1)] q(2) wiredD(3) [OF 1(3) r [unfolded Sent]]
      show ?thesis by simp
    next
      case Send_Again
      with 1(2) t z r wiredD(4) [OF 1(3)] show ?thesis by (auto simp: unfold)
    next
      case Send_Failed
      with 1(2) t z r wiredD(5) [OF 1(3)] show ?thesis by (auto simp: unfold)
    qed
  qed
qed

lemma stdin_write_order:
  "stdin_write_loop net fd t c w = (c', w') \<Longrightarrow> wired net out \<Longrightarrow> stdin_queue_ok c \<Longrightarrow>
     out fd w' @ cgi_stdin_queue c' = out fd w @ cgi_stdin_queue c"
proof (induction net fd t c w rule: stdin_write_loop.induct)
  case (1 net fd t c w)
  note unfold = stdin_write_loop.simps [of net fd t c w]
  obtain m w1 where r: "nt_write net fd (cgi_stdin_queue c) w = (m, w1)" by (metis surj_pair)
  note grown = wiredD(2) [OF 1(3) r]
  show ?case
  proof (cases "is_cgi_stdin_pending_empty c \<or> FAIR_IO_LIMIT \<le> t")
    case True
    with 1(2) show ?thesis by (auto simp: unfold)
  next
    case False
    show ?thesis
    proof (cases "0 < m")
      case True
      let ?c = "consume_cgi_stdin_pending m c"
      have run: "stdin_write_loop net fd (t + m) ?c w1 = (c', w')"
        using 1(2) False r True by (simp add: unfold)
      have m: "m \<le> length (cgi_stdin_queue c)" by (rule net_ok_write [OF wiredD(1) [OF 1(3)] r])
      from 1(1) [OF False r [symmetric] True run 1(3) stdin_queue.pop_valid [OF 1(4) m]]
        stdin_queue.pop_content [OF 1(4) m] grown
      show ?thesis by simp
    next
      case nm: False
      with 1(2) False r grown show ?thesis by (auto simp: unfold)
    qed
  qed
qed

text \<open>
  C11. The loops that empty the two queues of a script lose, repeat and reorder nothing: what has arrived
  at the other end, followed by what is still queued, is the same before and after, for the loop of
  \<open>handle_poll_output\<close> that sends to the client and that of \<open>handle_cgi_stdin_writable\<close> that writes to
  the script, with any partial writes and at any of their exits.
\<close>

theorem queues_drained_in_order:
  assumes "wired net out" and "send_queue_ok c" and "stdin_queue_ok d"
    and "send_loop net fd idx t c p w = (e, c', p', w')"
    and "stdin_write_loop net fd' t' d v = (d', v')"
  shows "out fd w' @ cgi_send_queue c' = out fd w @ cgi_send_queue c \<and>
    out fd' v' @ cgi_stdin_queue d' = out fd' v @ cgi_stdin_queue d"
  using send_loop_order [OF assms(4,1,2)] stdin_write_order [OF assms(5,1,3)] by simp

theorem queues_drained_in_order_witness:
  "let c = append_cgi_send_pending ''answer'' (start_cgi 1 4 5 (new_client 9 0 0));
       d = append_cgi_stdin_pending ''body'' (start_cgi 1 4 5 (new_client 9 0 0));
       (e, c', p', w') = send_loop feed_net 9 0 0 c [] (new_feed [] [] [2, 3, 0]);
       (d', v') = stdin_write_loop feed_net 4 0 d (new_feed [] [] [3, 0])
   in feed_out 9 w' @ cgi_send_queue c' = ''answer'' \<and> feed_out 4 v' @ cgi_stdin_queue d' = ''body''"
proof -
  let ?c = "append_cgi_send_pending ''answer'' (start_cgi 1 4 5 (new_client 9 0 0))"
  let ?d = "append_cgi_stdin_pending ''body'' (start_cgi 1 4 5 (new_client 9 0 0))"
  obtain e c' p' w' where 1: "send_loop feed_net 9 0 0 ?c [] (new_feed [] [] [2, 3, 0]) = (e, c', p', w')"
    by (metis prod_cases4)
  obtain d' v' where 2: "stdin_write_loop feed_net 4 0 ?d (new_feed [] [] [3, 0]) = (d', v')" by (metis surj_pair)
  have "send_queue_ok ?c" "stdin_queue_ok ?d" "cgi_send_queue ?c = ''answer''" "cgi_stdin_queue ?d = ''body''"
    by code_simp+
  with queues_drained_in_order [OF feed_wired _ _ 1 2] 1 2 show ?thesis
    by (simp add: feed_out_def new_feed_def)
qed

text \<open>The plain response: one \<open>send\<close> per turn from the offset on.\<close>

lemma remove_client_out:
  assumes "wired net out" and "remove_client net i s w = Some (s', w')"
  shows "out fd w' = out fd w"
proof (cases "get_client s (pf_fd (sv_poll s ! i))")
  case None
  with assms show ?thesis by (auto simp: remove_client_def Let_def wiredD split: if_split_asm)
next
  case (Some cl)
  obtain s1 j where d: "drop_cgi_in cl (drop_cgi_out cl (s, i)) = (s1, j)" by (metis surj_pair)
  with assms Some show ?thesis
    by (auto simp: remove_client_def Let_def wiredD wired_close_all wired_wait_all
        split: if_split_asm prod.split_asm)
qed

text \<open>One turn: what has arrived and what is behind the offset make up the response.\<close>

lemma send_response_order:
  assumes "wired net out" and "send_response net key c idx s w = Some (gone, s', w')"
    and "cl_response_offset c < length (cl_response c)"
  shows "if gone
    then out (cl_fd c) w' = out (cl_fd c) w @ drop (cl_response_offset c) (cl_response c) \<or>
      out (cl_fd c) w' = out (cl_fd c) w \<and>
      fst (nt_send net (cl_fd c) (drop (cl_response_offset c) (cl_response c)) w) \<in> {Send_Again, Send_Failed}
    else \<exists>c'. get_client s' key = Some c' \<and> cl_response c' = cl_response c \<and> cl_fd c' = cl_fd c \<and>
      cl_response_offset c < cl_response_offset c' \<and> cl_response_offset c' < length (cl_response c') \<and>
      out (cl_fd c) w' @ drop (cl_response_offset c') (cl_response c') =
        out (cl_fd c) w @ drop (cl_response_offset c) (cl_response c)"
proof -
  let ?rest = "drop (cl_response_offset c) (cl_response c)"
  obtain res w1 where r: "nt_send net (cl_fd c) ?rest w = (res, w1)" by (metis surj_pair)
  show ?thesis
  proof (cases res)
    case (Sent m)
    let ?c = "update_activity (nt_now net w1) (advance_response_offset (Suc m) c)"
    note grown = wiredD(3) [OF assms(1) r [unfolded Sent]]
    have off: "cl_response_offset ?c = cl_response_offset c + Suc m"
      by (simp add: update_activity_def advance_response_offset_def)
    show ?thesis
    proof (cases "length (cl_response c) \<le> cl_response_offset ?c")
      case True
      let ?s = "put_client key (clear_response ?c)
                  (s\<lparr>sv_poll := (sv_poll s)[idx := drop_event POLLOUT (sv_poll s ! idx)]\<rparr>)"
      have g: "gone" and rm: "remove_client net idx ?s w1 = Some (s', w')"
        using assms(2) r Sent True by (auto simp: send_response_def Let_def)
      have "out (cl_fd c) w' = out (cl_fd c) w @ ?rest"
        using remove_client_out [OF assms(1) rm] grown True off by simp
      with g show ?thesis by simp
    next
      case False
      have g: "\<not> gone" and s': "s' = put_client key ?c s" and w': "w' = w1"
        using assms(2) r Sent False by (auto simp: send_response_def Let_def)
      have "get_client s' key = Some ?c" by (simp add: s' get_client_def put_client_def map_of_map_put)
      moreover have "cl_response ?c = cl_response c" "cl_fd ?c = cl_fd c"
        by (simp_all add: update_activity_def advance_response_offset_def)
      moreover have "out (cl_fd c) w' @ drop (cl_response_offset ?c) (cl_response c) = out (cl_fd c) w @ ?rest"
      proof -
        have "drop (cl_response_offset ?c) (cl_response c) = drop (Suc m) ?rest" by (simp add: off add.commute)
        with grown show ?thesis by (simp only: w' append.assoc append_take_drop_id)
      qed
      ultimately show ?thesis using False off g by auto
    qed
  next
    case Send_Again
    then have "gone" "remove_client net idx s w1 = Some (s', w')"
      using assms(2) r by (auto simp: send_response_def)
    with remove_client_out [OF assms(1)] wiredD(4) [OF assms(1) r [unfolded Send_Again]] r Send_Again show ?thesis by simp
  next
    case Send_Failed
    then have "gone" "remove_client net idx s w1 = Some (s', w')"
      using assms(2) r by (auto simp: send_response_def)
    with remove_client_out [OF assms(1)] wiredD(5) [OF assms(1) r [unfolded Send_Failed]] r Send_Failed show ?thesis by simp
  qed
qed

text \<open>The turns of one client whose socket stays writable.\<close>

fun send_turns :: "'w net \<Rightarrow> int \<Rightarrow> nat \<Rightarrow> nat \<Rightarrow> server \<Rightarrow> 'w \<Rightarrow> (bool \<times> server \<times> 'w) option" where
  "send_turns net key idx 0 s w = Some (False, s, w)"
| "send_turns net key idx (Suc n) s w =
     (case get_client s key of
        None \<Rightarrow> Some (True, s, w)
      | Some c \<Rightarrow>
         (case send_response net key c idx s w of
            None \<Rightarrow> None
          | Some (True, s, w) \<Rightarrow> Some (True, s, w)
          | Some (False, s, w) \<Rightarrow> send_turns net key idx n s w))"

definition sends_succeed :: "'w net \<Rightarrow> bool" where
  "sends_succeed net \<longleftrightarrow> (\<forall>fd b w. b \<noteq> [] \<longrightarrow> fst (nt_send net fd b w) \<notin> {Send_Again, Send_Failed})"

lemma send_turns_prefix:
  "send_turns net key idx n s w = Some (gone, s', w') \<Longrightarrow> wired net out \<Longrightarrow> get_client s key = Some c \<Longrightarrow>
     cl_response_offset c < length (cl_response c) \<Longrightarrow> cl_fd c = fd \<Longrightarrow>
     \<exists>sent. out fd w' = out fd w @ sent \<and> prefix sent (drop (cl_response_offset c) (cl_response c)) \<and>
       (\<not> gone \<longrightarrow> n \<le> length sent \<and> length sent < length (cl_response c) - cl_response_offset c) \<and>
       (gone \<and> sends_succeed net \<longrightarrow> sent = drop (cl_response_offset c) (cl_response c))"
proof (induction n arbitrary: s w c)
  case 0
  then show ?case by (intro exI [of _ "[]"]) simp
next
  case (Suc n)
  let ?rest = "drop (cl_response_offset c) (cl_response c)"
  obtain b s1 w1 where r: "send_response net key c idx s w = Some (b, s1, w1)"
    and t: "if b then gone \<and> s' = s1 \<and> w' = w1 else send_turns net key idx n s1 w1 = Some (gone, s', w')"
    using Suc.prems(1,3) by (auto split: option.split_asm prod.split_asm bool.split_asm)
  note o = send_response_order [OF Suc.prems(2) r Suc.prems(4)]
  show ?case
  proof (cases b)
    case True
    then have g: "gone" "w' = w1" using t by simp_all
    have ne: "?rest \<noteq> []" using Suc.prems(4) by simp
    from o True Suc.prems(5) consider "out fd w1 = out fd w @ ?rest"
      | "out fd w1 = out fd w" "fst (nt_send net fd ?rest w) \<in> {Send_Again, Send_Failed}" by auto
    then show ?thesis
    proof cases
      case 1
      with g show ?thesis by (intro exI [of _ ?rest]) simp
    next
      case 2
      then have "\<not> sends_succeed net" unfolding sends_succeed_def using ne by blast
      with g 2 show ?thesis by (intro exI [of _ "[]"]) simp
    qed
  next
    case False
    from o False Suc.prems(5) obtain c1 where c1: "get_client s1 key = Some c1" "cl_response c1 = cl_response c"
      "cl_fd c1 = fd" "cl_response_offset c < cl_response_offset c1" "cl_response_offset c1 < length (cl_response c1)"
      and l: "out fd w1 @ drop (cl_response_offset c1) (cl_response c1) = out fd w @ ?rest"
      by auto
    from False t have "send_turns net key idx n s1 w1 = Some (gone, s', w')" by simp
    from Suc.IH [OF this Suc.prems(2) c1(1,5,3)] obtain sent where
      sent: "out fd w' = out fd w1 @ sent" "prefix sent (drop (cl_response_offset c1) (cl_response c))"
      "\<not> gone \<longrightarrow> n \<le> length sent \<and> length sent < length (cl_response c) - cl_response_offset c1"
      "gone \<and> sends_succeed net \<longrightarrow> sent = drop (cl_response_offset c1) (cl_response c)"
      unfolding c1(2) by blast
    let ?k = "cl_response_offset c1 - cl_response_offset c"
    have split: "?rest = take ?k ?rest @ drop (cl_response_offset c1) (cl_response c)"
    proof -
      have "drop ?k ?rest = drop (cl_response_offset c1) (cl_response c)" using c1(4) by simp
      then show ?thesis by (metis append_take_drop_id)
    qed
    then have g: "out fd w1 = out fd w @ take ?k ?rest" using l c1(2) by (metis append.assoc append_same_eq)
    have len: "length (take ?k ?rest) = ?k" using c1(2,4,5) by simp
    show ?thesis
    proof (intro exI conjI impI)
      show "out fd w' = out fd w @ (take ?k ?rest @ sent)" using sent(1) g by simp
      show "prefix (take ?k ?rest @ sent) ?rest" using sent(2) split by (metis same_prefix_prefix)
      show "take ?k ?rest @ sent = ?rest" if "gone \<and> sends_succeed net" using sent(4) that split by metis
      assume "\<not> gone"
      with sent(3) have "n \<le> length sent" "length sent < length (cl_response c) - cl_response_offset c1" by simp_all
      then show "Suc n \<le> length (take ?k ?rest @ sent)"
        "length (take ?k ?rest @ sent) < length (cl_response c) - cl_response_offset c"
        using len c1(4) by simp_all
    qed
  qed
qed

text \<open>What the turns do to the tables: a client that is gone has left them with its entry, and nothing
  else has.\<close>

lemma erase_at_update: "erase_at i (xs[i := x]) = erase_at i xs"
  by (simp add: erase_at_def)

lemma send_response_client:
  assumes "send_response net key c idx s w = Some (gone, s', w')"
    and "pf_fd (sv_poll s ! idx) = key" and "get_client s key = Some c"
    and "cl_cgi_stdin_fd c = - 1" and "cl_cgi_stdout_fd c = - 1"
  shows "(k \<noteq> key \<longrightarrow> get_client s' k = get_client s k) \<and>
    (if gone then get_client s' key = None \<and> sv_poll s' = erase_at idx (sv_poll s)
     else sv_poll s' = sv_poll s \<and>
       (\<exists>c'. get_client s' key = Some c' \<and> cl_cgi_stdin_fd c' = - 1 \<and> cl_cgi_stdout_fd c' = - 1))"
proof -
  have rm: "(k \<noteq> key \<longrightarrow> get_client s' k = get_client s k) \<and> get_client s' key = None \<and>
      sv_poll s' = erase_at idx (sv_poll s)"
    if "remove_client net idx s0 w0 = Some (s', w')" and "pf_fd (sv_poll s0 ! idx) = key"
      and "get_client s0 key = Some c0" "cl_cgi_stdin_fd c0 = - 1" "cl_cgi_stdout_fd c0 = - 1"
      and "\<And>k. k \<noteq> key \<Longrightarrow> get_client s0 k = get_client s k"
      and "erase_at idx (sv_poll s0) = erase_at idx (sv_poll s)" for s0 w0 c0
    using remove_client_others [OF that(1)] remove_client_poll [OF that(1)] that(2-7) by auto
  obtain res w1 where r: "nt_send net (cl_fd c) (drop (cl_response_offset c) (cl_response c)) w = (res, w1)"
    by (metis surj_pair)
  show ?thesis
  proof (cases res)
    case (Sent m)
    define d where "d = update_activity (nt_now net w1) (advance_response_offset (Suc m) c)"
    have d: "cl_cgi_stdin_fd d = - 1" "cl_cgi_stdout_fd d = - 1"
      using assms(4,5) by (simp_all add: d_def update_activity_def advance_response_offset_def)
    show ?thesis
    proof (cases "length (cl_response c) \<le> cl_response_offset d")
      case True
      let ?s = "put_client key (clear_response d)
                  (s\<lparr>sv_poll := (sv_poll s)[idx := drop_event POLLOUT (sv_poll s ! idx)]\<rparr>)"
      have g: "gone" "remove_client net idx ?s w1 = Some (s', w')"
        using assms(1) r Sent True by (auto simp: send_response_def Let_def d_def)
      have "idx < length (sv_poll s)" using g(2) by (auto simp: remove_client_def split: if_split_asm)
      then have "pf_fd (sv_poll ?s ! idx) = key" using assms(2) by (simp add: drop_event_def)
      from rm [OF g(2) this, of "clear_response d"] g(1) d show ?thesis
        by (simp add: get_client_def put_client_def map_of_map_put clear_response_def erase_at_update)
    next
      case False
      with assms(1) r Sent have "\<not> gone" "s' = put_client key d s"
        by (auto simp: send_response_def Let_def d_def)
      with d show ?thesis by (simp add: get_client_def put_client_def map_of_map_put)
    qed
  next
    case Send_Again
    then have g: "gone" "remove_client net idx s w1 = Some (s', w')"
      using assms(1) r by (auto simp: send_response_def)
    from rm [OF g(2) assms(2,3,4,5)] g(1) show ?thesis by simp
  next
    case Send_Failed
    then have g: "gone" "remove_client net idx s w1 = Some (s', w')"
      using assms(1) r by (auto simp: send_response_def)
    from rm [OF g(2) assms(2,3,4,5)] g(1) show ?thesis by simp
  qed
qed

lemma send_turns_client:
  "send_turns net key idx n s w = Some (gone, s', w') \<Longrightarrow> pf_fd (sv_poll s ! idx) = key \<Longrightarrow>
     get_client s key = Some c \<Longrightarrow> cl_cgi_stdin_fd c = - 1 \<Longrightarrow> cl_cgi_stdout_fd c = - 1 \<Longrightarrow>
     (k \<noteq> key \<longrightarrow> get_client s' k = get_client s k) \<and>
     (get_client s' key = None \<longleftrightarrow> gone) \<and>
     sv_poll s' = (if gone then erase_at idx (sv_poll s) else sv_poll s)"
proof (induction n arbitrary: s w c)
  case (Suc n)
  obtain b s1 w1 where r: "send_response net key c idx s w = Some (b, s1, w1)"
    and t: "if b then gone \<and> s' = s1 \<and> w' = w1 else send_turns net key idx n s1 w1 = Some (gone, s', w')"
    using Suc.prems(1,3) by (auto split: option.split_asm prod.split_asm bool.split_asm)
  note o = send_response_client [OF r Suc.prems(2-5), of k]
  show ?case
  proof (cases b)
    case True
    with o t show ?thesis by simp
  next
    case False
    with o obtain c1 where c1: "get_client s1 key = Some c1" "cl_cgi_stdin_fd c1 = - 1" "cl_cgi_stdout_fd c1 = - 1"
      and p: "sv_poll s1 = sv_poll s" by auto
    from False t have "send_turns net key idx n s1 w1 = Some (gone, s', w')" by simp
    from Suc.IH [OF this _ c1] p Suc.prems(2) o False show ?thesis by simp
  qed
qed simp

text \<open>
  C12. A response is delivered from its first byte on, in order, while its client's socket is writable, and then
  the client is removed: take a client without a script and its entry of the \<open>poll\<close> vector. After any
  number of turns what has arrived in addition is a prefix of what was still to be sent, with at least
  one byte for every turn after which the client is still there. After as many turns as there are bytes
  the client has left the client table and its entry has left the vector, with every other client and
  entry as before, and then it has got all of the response unless a \<open>send\<close> failed. A full socket buffer
  counts as a failure.
\<close>

theorem response_delivered:
  assumes "wired net out" and "get_client s key = Some c"
    and "cl_response_offset c < length (cl_response c)"
    and "pf_fd (sv_poll s ! idx) = key" and "cl_cgi_stdin_fd c = - 1" and "cl_cgi_stdout_fd c = - 1"
    and "send_turns net key idx n s w = Some (gone, s', w')"
  shows "\<exists>sent. out (cl_fd c) w' = out (cl_fd c) w @ sent \<and>
    prefix sent (drop (cl_response_offset c) (cl_response c)) \<and>
    (get_client s' key = None \<longleftrightarrow> gone) \<and> (\<forall>k. k \<noteq> key \<longrightarrow> get_client s' k = get_client s k) \<and>
    sv_poll s' = (if gone then erase_at idx (sv_poll s) else sv_poll s) \<and>
    (\<not> gone \<longrightarrow> n \<le> length sent) \<and>
    (length (cl_response c) - cl_response_offset c \<le> n \<longrightarrow> gone) \<and>
    (gone \<and> sends_succeed net \<longrightarrow> sent = drop (cl_response_offset c) (cl_response c))"
  using send_turns_prefix [OF assms(7,1,2,3) refl] send_turns_client [OF assms(7,4,2,5,6)] by fastforce

theorem response_delivered_witness:
  "\<exists>s' w'. send_turns feed_net 9 1 2 (put_client 9 (set_response ''abcd'' (new_client 9 0 0)) (demo_client new_server))
      (new_feed [] [] [3]) = Some (True, s', w') \<and> prefix (feed_out 9 w') ''abcd'' \<and>
      get_client s' 9 = None \<and> length (sv_poll s') = 1"
proof -
  let ?c = "set_response ''abcd'' (new_client 9 0 0)" and ?w = "new_feed [] [] [3]"
  let ?s = "put_client 9 ?c (demo_client new_server)"
  have "case send_turns feed_net 9 1 2 ?s ?w of None \<Rightarrow> False | Some (gone, s', w') \<Rightarrow> gone" by code_simp
  then obtain s' w' where r: "send_turns feed_net 9 1 2 ?s ?w = Some (True, s', w')"
    by (auto split: option.split_asm)
  have c: "get_client ?s 9 = Some ?c" "cl_response_offset ?c < length (cl_response ?c)"
    "pf_fd (sv_poll ?s ! 1) = 9" "cl_cgi_stdin_fd ?c = - 1" "cl_cgi_stdout_fd ?c = - 1" by code_simp+
  have d: "cl_fd ?c = 9" "cl_response ?c = ''abcd''" "cl_response_offset ?c = 0" "feed_out 9 ?w = []"
    "length (erase_at (Suc 0) (sv_poll (demo_client new_server))) = Suc 0" by code_simp+
  from response_delivered [OF feed_wired c r]
  have "prefix (feed_out 9 w') ''abcd'' \<and> get_client s' 9 = None \<and> length (sv_poll s') = 1"
    unfolding d by (auto simp: d)
  with r show ?thesis by blast
qed

end
