(* ===== verification/RequestRoundtrip.thy ===== *)
theory RequestRoundtrip
  imports Request
begin

text \<open>
  A reference encoder for HTTP/1.1 requests (request line, header fields with optional white
  space, a body framed by \<open>Content-Length\<close> or by chunks with extensions and trailers) and the
  proof that \<open>HTTPRequest::parse\<close> decodes what it writes and stops exactly at its last byte.
\<close>

section \<open>Reference encoder\<close>

text \<open>A header field: name, blanks before the value, value, blanks after it.\<close>

type_synonym field = "string \<times> string \<times> string \<times> string"

fun field_text :: "field \<Rightarrow> string" where
  "field_text (k, a, v, b) = k @ '':'' @ a @ v @ b @ crlf"

fun wf_field :: "field \<Rightarrow> bool" where
  "wf_field (k, a, v, b) \<longleftrightarrow>
     CR \<notin> set k \<and> CHR '':'' \<notin> set k \<and> set a \<subseteq> blanks \<and> set b \<subseteq> blanks \<and> CR \<notin> set v \<and>
     (v \<noteq> [] \<longrightarrow> hd v \<notin> blanks \<and> last v \<notin> blanks)"

definition head_text :: "string \<Rightarrow> string \<Rightarrow> string \<Rightarrow> field list \<Rightarrow> string" where
  "head_text m t p hs = m @ [SP] @ t @ [SP] @ p @ crlf @ concat (map field_text hs) @ crlf"

definition wf_head :: "string \<Rightarrow> string \<Rightarrow> string \<Rightarrow> field list \<Rightarrow> bool" where
  "wf_head m t p hs \<longleftrightarrow>
     m \<noteq> [] \<and> SP \<notin> set m \<and> CR \<notin> set m \<and> t \<noteq> [] \<and> SP \<notin> set t \<and> CR \<notin> set t \<and>
     p \<noteq> [] \<and> CR \<notin> set p \<and> list_all wf_field hs"

text \<open>The header map that the fields stand for: names are lower-cased, the last one wins.\<close>

definition header_map :: "field list \<Rightarrow> (string, string) std_map" where
  "header_map hs =
     foldl (\<lambda>m kv. map_put (fst kv) (snd kv) m) []
       (map (\<lambda>(k, a, v, b). (str_to_lower k, v)) hs)"

section \<open>The head of a request\<close>

lemma trim_of_padded:
  assumes "set a \<subseteq> S" and "set b \<subseteq> S" and "v \<noteq> [] \<longrightarrow> hd v \<notin> S \<and> last v \<notin> S"
  shows "trim_of S (a @ v @ b) = v"
proof -
  have a: "dropWhile (\<lambda>x. x \<in> S) (a @ w) = dropWhile (\<lambda>x. x \<in> S) w" for w
    using assms(1) by (induction a) auto
  have b: "dropWhile (\<lambda>x. x \<in> S) (rev b @ w) = dropWhile (\<lambda>x. x \<in> S) w" for w
    using assms(2) by (induction b rule: rev_induct) auto
  show ?thesis
  proof (cases "v = []")
    case True
    have "dropWhile (\<lambda>x. x \<in> S) b = []"
      using assms(2) by (auto simp: dropWhile_eq_Nil_conv)
    then have "rev (dropWhile (\<lambda>x. x \<in> S) (rev (dropWhile (\<lambda>x. x \<in> S) b))) = []" by (simp only:) simp
    then show ?thesis unfolding trim_of_eq a True append_Nil .
  next
    case False
    with assms(3) have "dropWhile (\<lambda>x. x \<in> S) (v @ b) = v @ b" by (cases v) auto
    moreover from False assms(3) have "dropWhile (\<lambda>x. x \<in> S) (rev v) = rev v"
      by (cases "rev v") (auto simp: last_rev hd_rev [symmetric])
    ultimately show ?thesis by (simp add: trim_of_eq a b)
  qed
qed

lemma upd_buffer_headers:
  "r\<lparr>rq_buffer := b, rq_headers := h\<rparr> = r\<lparr>rq_headers := h\<rparr>\<lparr>rq_buffer := b\<rparr>"
  by simp

lemma parse_headers_text:
  assumes "list_all wf_field hs"
  shows "parse_headers (r\<lparr>rq_buffer := concat (map field_text hs) @ crlf @ rest\<rparr>) =
    (True, r\<lparr>rq_buffer := rest,
             rq_headers := foldl (\<lambda>m kv. map_put (fst kv) (snd kv) m) (rq_headers r)
               (map (\<lambda>(k, a, v, b). (str_to_lower k, v)) hs)\<rparr>)"
  using assms
proof (induction hs arbitrary: r)
  case Nil
  then show ?case by (simp add: parse_headers_blank str_simps)
next
  case (Cons h hs)
  obtain k a v b where h: "h = (k, a, v, b)" by (cases h)
  let ?line = "k @ CHR '':'' # a @ v @ b" and ?more = "concat (map field_text hs) @ crlf @ rest"
  have wf: "wf_field (k, a, v, b)" and wfs: "list_all wf_field hs"
    using Cons.prems by (simp_all add: h)
  have "CR \<notin> blanks" by (simp add: blanks_def)
  with wf have cr: "CR \<notin> set ?line" by auto
  have buf: "concat (map field_text (h # hs)) @ crlf @ rest = ?line @ CR # LF # ?more"
    by (simp add: h)
  have sp: "split_crlf (?line @ CR # LF # ?more) = Some (?line, ?more)"
    using cr by (rule split_crlf_line)
  have col: "find_char CHR '':'' ?line = Some (length k)"
    using wf by (intro find_char_append) simp
  have "trim_of blanks (a @ v @ b) = v"
    using wf by (intro trim_of_padded) simp_all
  then have val: "trim_of blanks (drop (length k + 1) ?line) = v" by simp
  have key: "substr ?line 0 (length k) = k" by (simp add: str_simps)
  have "parse_headers (r\<lparr>rq_buffer := ?line @ CR # LF # ?more\<rparr>) =
      parse_headers (r\<lparr>rq_headers := map_put (str_to_lower k) v (rq_headers r)\<rparr>\<lparr>rq_buffer := ?more\<rparr>)"
    using parse_headers_field [of "r\<lparr>rq_buffer := ?line @ CR # LF # ?more\<rparr>" ?line ?more "length k"]
      sp col unfolding key val by (simp add: upd_buffer_headers)
  also have "\<dots> = (True, r\<lparr>rq_buffer := rest,
      rq_headers := foldl (\<lambda>m kv. map_put (fst kv) (snd kv) m) (rq_headers r)
        (map (\<lambda>(k, a, v, b). (str_to_lower k, v)) (h # hs))\<rparr>)"
    unfolding Cons.IH [OF wfs] by (simp add: h)
  finally show ?case unfolding buf .
qed

lemma parse_request_line_text:
  assumes "m \<noteq> []" "SP \<notin> set m" "CR \<notin> set m" "t \<noteq> []" "SP \<notin> set t" "CR \<notin> set t" "p \<noteq> []" "CR \<notin> set p"
  shows "parse_request_line (r\<lparr>rq_buffer := m @ [SP] @ t @ [SP] @ p @ crlf @ rest\<rparr>) =
    (True, r\<lparr>rq_buffer := rest, rq_method := m, rq_target := t, rq_protocol := p\<rparr>)"
proof -
  let ?line = "m @ SP # t @ SP # p"
  have "split_crlf (?line @ CR # LF # rest) = Some (?line, rest)"
    using assms by (intro split_crlf_line) auto
  moreover have "find_char SP ?line = Some (length m)"
    using assms by (intro find_char_append)
  moreover have "find_char_from SP ?line (length m + 1) = Some (length m + 1 + length t)"
    using assms by (simp add: find_char_from_def find_char_append)
  ultimately show ?thesis
    using assms by (simp add: parse_request_line_def substr_def)
qed

text \<open>After the head, the parser stands at the first byte behind the blank line.\<close>

lemma parse_head_text:
  assumes "wf_head m t p hs" and "rq_state r = PARSSING_REQUEST_LINE" and "rq_buffer r = []"
    and "rq_headers r = []"
  shows "parse r (head_text m t p hs @ rest) =
    parse_loop (after_headers (r\<lparr>rq_buffer := rest, rq_state := PARSSING_HEADERS, rq_method := m,
      rq_target := t, rq_protocol := p, rq_headers := header_map hs\<rparr>))"
proof -
  let ?hs = "concat (map field_text hs) @ crlf @ rest"
  let ?r1 = "r\<lparr>rq_state := PARSSING_HEADERS, rq_method := m, rq_target := t, rq_protocol := p\<rparr>"
  have l: "parse_request_line (r\<lparr>rq_buffer := m @ [SP] @ t @ [SP] @ p @ crlf @ ?hs\<rparr>) =
      (True, r\<lparr>rq_buffer := ?hs, rq_method := m, rq_target := t, rq_protocol := p\<rparr>)"
    using assms(1) by (intro parse_request_line_text) (simp_all add: wf_head_def)
  have h: "parse_headers (?r1\<lparr>rq_buffer := ?hs\<rparr>) =
      (True, ?r1\<lparr>rq_buffer := rest, rq_headers := header_map hs\<rparr>)"
    using assms(1,4) parse_headers_text [where hs = hs and r = ?r1 and rest = rest] by (simp add: wf_head_def header_map_def)
  have "parse r (head_text m t p hs @ rest) =
      parse_loop (r\<lparr>rq_buffer := m @ [SP] @ t @ [SP] @ p @ crlf @ ?hs\<rparr>)"
    using assms by (simp add: parse_def head_text_def)
  also have "\<dots> = parse_loop (r\<lparr>rq_buffer := ?hs, rq_method := m, rq_target := t, rq_protocol := p\<rparr>
      \<lparr>rq_state := PARSSING_HEADERS\<rparr>)"
    using assms(2) by (subst parse_loop_line, simp) (simp only: l prod.case if_True)
  also have "r\<lparr>rq_buffer := ?hs, rq_method := m, rq_target := t, rq_protocol := p\<rparr>
      \<lparr>rq_state := PARSSING_HEADERS\<rparr> = ?r1\<lparr>rq_buffer := ?hs\<rparr>"
    by simp
  also have "parse_loop (?r1\<lparr>rq_buffer := ?hs\<rparr>) =
      parse_loop (after_headers (?r1\<lparr>rq_buffer := rest, rq_headers := header_map hs\<rparr>))"
    by (subst parse_loop_headers, simp) (simp only: h prod.case if_True)
  also have "?r1\<lparr>rq_buffer := rest, rq_headers := header_map hs\<rparr> =
      r\<lparr>rq_buffer := rest, rq_state := PARSSING_HEADERS, rq_method := m,
        rq_target := t, rq_protocol := p, rq_headers := header_map hs\<rparr>"
    by simp
  finally show ?thesis .
qed

section \<open>Bodies framed by chunks\<close>

text \<open>A chunk: its extension (empty, or starting with a semicolon) and its data.\<close>

type_synonym chunk = "string \<times> string"

fun chunk_text :: "chunk \<Rightarrow> string" where
  "chunk_text (ext, c) = show_hex (length c) @ ext @ crlf @ c @ crlf"

fun wf_chunk :: "chunk \<Rightarrow> bool" where
  "wf_chunk (ext, c) \<longleftrightarrow>
     c \<noteq> [] \<and> length c < 2 ^ 64 \<and> CR \<notin> set ext \<and> (ext = [] \<or> hd ext = CHR '';'')"

definition chunked_text :: "chunk list \<Rightarrow> string list \<Rightarrow> string" where
  "chunked_text cs trailers =
     concat (map chunk_text cs) @ ''0'' @ crlf @ concat (map (\<lambda>l. l @ crlf) trailers) @ crlf"

definition wf_trailers :: "string list \<Rightarrow> bool" where
  "wf_trailers ls \<longleftrightarrow> list_all (\<lambda>l. l \<noteq> [] \<and> CR \<notin> set l) ls"

lemma parse_hex_value:
  assumes "\<forall>c \<in> set s. is_hex c"
  shows "parse_hex_string s = Some (word_of_nat (hex_val s))"
proof -
  have "foldl (\<lambda>n c. n * 16 + word_of_nat (the (hex_digit c))) (word_of_nat k) s =
      (word_of_nat (foldl (\<lambda>n c. n * 16 + the (hex_digit c)) k s) :: size_t)" for k
  proof (induction s arbitrary: k)
    case Nil
    then show ?case by simp
  next
    case (Cons c s)
    show ?case using Cons.IH [of "k * 16 + the (hex_digit c)"] by simp
  qed
  from this [of 0] assms show ?thesis by (simp add: parse_hex_string_def hex_val_def)
qed

lemma blanks_hex: "is_hex c \<Longrightarrow> c \<notin> blanks"
  by (auto simp: blanks_def is_hex_not)

lemma parse_hex_size_line:
  assumes "CR \<notin> set ext" and "ext = [] \<or> hd ext = CHR '';''" and h: "\<forall>c \<in> set h. is_hex c" "h \<noteq> []"
  shows "parse_chunk_size (r\<lparr>rq_buffer := h @ ext @ crlf @ rest\<rparr>) =
    (True, r\<lparr>rq_buffer := rest, rq_chunk_remaining := word_of_nat (hex_val h),
             rq_chunked_state :=
               (if hex_val h mod 2 ^ 64 = 0 then CHUNK_TRAILERS else CHUNK_DATA)\<rparr>)"
proof -
  have "CR \<notin> set (h @ ext)" using assms(1) h is_hex_not(1) by auto
  then have sp: "split_crlf ((h @ ext) @ CR # LF # rest) = Some (h @ ext, rest)"
    by (rule split_crlf_line)
  have nosemi: "CHR '';'' \<notin> set h" using h(1) is_hex_not(4) by blast
  have line: "(case find_char CHR '';'' (h @ ext) of
      Some semi \<Rightarrow> substr (h @ ext) 0 semi | None \<Rightarrow> h @ ext) = h"
  proof (cases ext)
    case Nil
    with nosemi have "find_char CHR '';'' (h @ ext) = None" by (simp add: find_char_None)
    with Nil show ?thesis by simp
  next
    case (Cons x xs)
    with assms(2) have "find_char CHR '';'' (h @ ext) = Some (length h)"
      using find_char_append [OF nosemi, of xs] by simp
    then show ?thesis by (simp add: str_simps)
  qed
  have nb: "hd h \<notin> blanks" "last h \<notin> blanks" using h(1,2) blanks_hex by auto
  have tr: "trim_of blanks h = h" using h(2) nb by (rule trim_of_id)
  have "find_if (\<lambda>x. x \<notin> blanks) h \<noteq> None"
    using h(2) nb(1) hd_in_set [OF h(2)] unfolding find_if_None by blast
  then have fn: "find_first_not_of blanks h \<noteq> None" by (simp add: find_first_not_of_def)
  note hx = parse_hex_value [OF h(1)]
  show ?thesis
    using sp unfolding parse_chunk_size_def
    by (simp add: line fn tr hx word_of_nat_eq_0_mod)
qed

lemma parse_size_line:
  assumes "CR \<notin> set ext" and "ext = [] \<or> hd ext = CHR '';''" and "n < 2 ^ 64"
  shows "parse_chunk_size (r\<lparr>rq_buffer := show_hex n @ ext @ crlf @ rest\<rparr>) =
    (True, r\<lparr>rq_buffer := rest, rq_chunk_remaining := word_of_nat n,
             rq_chunked_state := (if n = 0 then CHUNK_TRAILERS else CHUNK_DATA)\<rparr>)"
  using parse_hex_size_line [OF assms(1,2), of "show_hex n"] show_hex_correct [of n] assms(3)
  by simp

lemma split_crlf_lead: "take 2 (crlf @ w) = crlf" "drop 2 (crlf @ w) = w"
  by (simp_all add: numeral_2_eq_2)

lemma parse_one_chunk:
  assumes wf: "wf_chunk (ext, c)" and st: "rq_chunked_state r = CHUNK_SIZE"
    and lim: "rq_max_body_size r = 0 \<or> length (rq_body r) + length c \<le> unat (rq_max_body_size r)"
  shows "parse_chunked_body (r\<lparr>rq_buffer := chunk_text (ext, c) @ rest\<rparr>) =
    parse_chunked_body (r\<lparr>rq_body := rq_body r @ c, rq_chunk_remaining := 0\<rparr>\<lparr>rq_buffer := rest\<rparr>)"
proof -
  let ?r1 = "r\<lparr>rq_buffer := c @ crlf @ rest, rq_chunk_remaining := word_of_nat (length c),
               rq_chunked_state := CHUNK_DATA\<rparr>"
  let ?r2 = "r\<lparr>rq_buffer := crlf @ rest, rq_chunk_remaining := 0,
               rq_chunked_state := CHUNK_DATA_CRLF, rq_body := rq_body r @ c\<rparr>"
  let ?r3 = "r\<lparr>rq_body := rq_body r @ c, rq_chunk_remaining := 0\<rparr>\<lparr>rq_buffer := rest\<rparr>"
  have n: "unat (word_of_nat (length c) :: size_t) = length c" using wf by (simp add: unat_size)
  have "parse_chunk_size (r\<lparr>rq_buffer := show_hex (length c) @ ext @ crlf @ (c @ crlf @ rest)\<rparr>) =
      (True, ?r1)"
    using wf by (subst parse_size_line) auto
  then have "chunk_turn (r\<lparr>rq_buffer := chunk_text (ext, c) @ rest\<rparr>) = (True, ?r1)"
    by (simp add: chunk_turn_def st)
  moreover have "chunk_turn ?r1 = (True, ?r2)"
    using lim by (auto simp: chunk_turn_def parse_chunk_data_def n substr_def Let_def)
  moreover have "chunk_turn ?r2 = (True, ?r3)"
    by (simp add: chunk_turn_def parse_chunk_data_crlf_def st)
  ultimately show ?thesis
    by (subst parse_chunked_body_turn, simp add: st)
       (simp only: prod.case if_True, subst parse_chunked_body_turn, simp,
        simp only: prod.case if_True, subst parse_chunked_body_turn, simp,
        simp only: prod.case if_True)
qed

lemma parse_trailer_lines:
  assumes "wf_trailers ls"
  shows "parse_chunk_trailers (r\<lparr>rq_buffer := concat (map (\<lambda>l. l @ crlf) ls) @ crlf @ rest\<rparr>) =
    (True, r\<lparr>rq_buffer := rest\<rparr>)"
  using assms
proof (induction ls)
  case Nil
  then show ?case by (simp add: parse_chunk_trailers_line str_simps)
next
  case (Cons l ls)
  then have "split_crlf (l @ CR # LF # (concat (map (\<lambda>l. l @ crlf) ls) @ crlf @ rest)) =
      Some (l, concat (map (\<lambda>l. l @ crlf) ls) @ crlf @ rest)"
    by (intro split_crlf_line) (simp add: wf_trailers_def)
  with Cons show ?case
    by (simp add: parse_chunk_trailers_line wf_trailers_def)
qed

lemma parse_chunks:
  assumes "list_all wf_chunk cs" and "wf_trailers ls" and "rq_chunked_state r = CHUNK_SIZE"
    and "rq_max_body_size r = 0 \<or>
         length (rq_body r) + length (concat (map snd cs)) \<le> unat (rq_max_body_size r)"
  shows "parse_chunked_body (r\<lparr>rq_buffer := chunked_text cs ls @ rest\<rparr>) =
    (True, r\<lparr>rq_buffer := rest, rq_chunk_remaining := 0, rq_chunked_state := CHUNK_TRAILERS,
             rq_body := rq_body r @ concat (map snd cs)\<rparr>)"
  using assms(1,3,4)
proof (induction cs arbitrary: r)
  case Nil
  let ?more = "concat (map (\<lambda>l. l @ crlf) ls) @ crlf @ rest"
  let ?r1 = "r\<lparr>rq_buffer := ?more, rq_chunk_remaining := 0, rq_chunked_state := CHUNK_TRAILERS\<rparr>"
  have zero: "show_hex 0 = ''0''" by (simp add: show_hex.simps [of 0] hex_char_def char_of_def bit_simps)
  have "parse_chunk_size (r\<lparr>rq_buffer := show_hex 0 @ [] @ crlf @ ?more\<rparr>) = (True, ?r1)"
    by (subst parse_size_line) simp_all
  then have "chunk_turn (r\<lparr>rq_buffer := chunked_text [] ls @ rest\<rparr>) = (True, ?r1)"
    using Nil.prems by (simp add: chunk_turn_def chunked_text_def zero)
  moreover have "parse_chunk_trailers ?r1 =
      (True, r\<lparr>rq_buffer := rest, rq_chunk_remaining := 0, rq_chunked_state := CHUNK_TRAILERS\<rparr>)"
  proof -
    let ?s = "r\<lparr>rq_chunk_remaining := 0, rq_chunked_state := CHUNK_TRAILERS\<rparr>"
    have "?r1 = ?s\<lparr>rq_buffer := ?more\<rparr>" by simp
    then show ?thesis by (simp only: parse_trailer_lines [OF assms(2)]) simp
  qed
  ultimately show ?case
    using Nil.prems
    by (subst parse_chunked_body_turn, simp)
       (simp only: prod.case if_True, subst parse_chunked_body_trailers, simp, simp)
next
  case (Cons ec cs)
  obtain ext c where ec: "ec = (ext, c)" by (cases ec)
  let ?r = "r\<lparr>rq_body := rq_body r @ c, rq_chunk_remaining := 0\<rparr>"
  have "parse_chunked_body (r\<lparr>rq_buffer := chunk_text (ext, c) @ (chunked_text cs ls @ rest)\<rparr>) =
      parse_chunked_body (?r\<lparr>rq_buffer := chunked_text cs ls @ rest\<rparr>)"
    using Cons.prems ec by (intro parse_one_chunk) auto
  moreover have "chunked_text (ec # cs) ls @ rest = chunk_text (ext, c) @ (chunked_text cs ls @ rest)"
    by (simp add: chunked_text_def ec)
  moreover have "parse_chunked_body (?r\<lparr>rq_buffer := chunked_text cs ls @ rest\<rparr>) =
      (True, ?r\<lparr>rq_buffer := rest, rq_chunk_remaining := 0, rq_chunked_state := CHUNK_TRAILERS,
             rq_body := rq_body ?r @ concat (map snd cs)\<rparr>)"
    using Cons.prems ec by (intro Cons.IH) auto
  ultimately show ?case by (simp add: ec)
qed

section \<open>Round trips\<close>

text \<open>A sample message for the closed instances below.\<close>

abbreviation sample_fields :: "field list" where
  "sample_fields \<equiv>
     [(''Host'', '' '', ''a'', []), (''Content-Length'', '' '', ''3'', '' ''),
      (''X'', [], [], [])]"

abbreviation sample_chunked_fields :: "field list" where
  "sample_chunked_fields \<equiv> [(''Transfer-Encoding'', '' '', ''Chunked'', [])]"

text \<open>
  C27. Round trip, \<open>Content-Length\<close> framing: parsing a well-formed request head followed by the
  announced number of body bytes succeeds, with exactly the method, target, protocol, header map
  and body that were encoded, and whatever follows on the connection is left unread in the buffer.
\<close>

theorem parse_content_length_request:
  assumes "wf_head m t p hs"
    and "map_of (header_map hs) ''content-length'' = Some (show_nat (length body))"
    and "map_of (header_map hs) ''transfer-encoding'' = None"
    and "int (length body) \<le> LONG_MAX" and "mx = 0 \<or> length body \<le> unat mx"
  shows "parse (set_max_body_size mx new_request) (head_text m t p hs @ body @ rest) =
    (True, (set_max_body_size mx new_request)
       \<lparr>rq_buffer := rest, rq_state := PARSSING_COMPLETE, rq_method := m, rq_target := t,
        rq_protocol := p, rq_headers := header_map hs, rq_body := body\<rparr>)"
proof -
  let ?r = "(set_max_body_size mx new_request)\<lparr>rq_buffer := body @ rest, rq_state := PARSSING_HEADERS,
      rq_method := m, rq_target := t, rq_protocol := p, rq_headers := header_map hs\<rparr>"
  let ?n = "atol_size (show_nat (length body))"
  have n: "unat ?n = length body" using assms(4) by (rule atol_size_show_nat)
  have lim: "\<not> (0 < mx \<and> mx < ?n)" using assms(5) n by (auto simp: word_less_nat_alt)
  have "parse (set_max_body_size mx new_request) (head_text m t p hs @ body @ rest) =
      parse_loop (after_headers ?r)"
    using assms(1) by (rule parse_head_text) (simp_all add: set_max_body_size_def new_request_def)
  also have "after_headers ?r = ?r\<lparr>rq_state := PARSSING_BODY\<rparr>"
    using assms(2,3) by (simp add: after_headers_def has_body_def get_header_value_def te_chunked_def
        contains_def set_max_body_size_def new_request_def)
  also have "parse_loop \<dots> = (True, (set_max_body_size mx new_request)
       \<lparr>rq_buffer := rest, rq_state := PARSSING_COMPLETE, rq_method := m, rq_target := t,
        rq_protocol := p, rq_headers := header_map hs, rq_body := body\<rparr>)"
    using assms(2) n lim
    by (subst parse_loop_body, simp)
       (auto simp: parse_body_def get_header_value_def set_max_body_size_def
          new_request_def Let_def substr_def)
  finally show ?thesis .
qed

theorem parse_content_length_request_witness:
  "parse (set_max_body_size 8 new_request)
     (head_text ''POST'' ''/u'' ''HTTP/1.1'' sample_fields @ ''abc'' @ ''GET'') =
   (True, (set_max_body_size 8 new_request)
     \<lparr>rq_buffer := ''GET'', rq_state := PARSSING_COMPLETE, rq_method := ''POST'', rq_target := ''/u'',
      rq_protocol := ''HTTP/1.1'', rq_headers := header_map sample_fields, rq_body := ''abc''\<rparr>)"
  by (rule parse_content_length_request) code_simp+

lemma parse_chunked_text:
  assumes "wf_head m t p hs"
    and "map_of (header_map hs) ''transfer-encoding'' = Some te" and "te_chunked te"
    and "list_all wf_chunk cs" and "wf_trailers ls"
    and "mx = 0 \<or> length (concat (map snd cs)) \<le> unat mx"
  shows "parse (set_max_body_size mx new_request) (head_text m t p hs @ chunked_text cs ls @ rest) =
    (True, (set_max_body_size mx new_request)
       \<lparr>rq_buffer := rest, rq_state := PARSSING_COMPLETE, rq_chunked_state := CHUNK_TRAILERS,
        rq_is_chunked := True, rq_method := m, rq_target := t, rq_protocol := p,
        rq_headers := header_map hs, rq_body := concat (map snd cs)\<rparr>)"
proof -
  let ?init = "set_max_body_size mx new_request"
  let ?r = "?init\<lparr>rq_buffer := chunked_text cs ls @ rest, rq_state := PARSSING_HEADERS,
      rq_method := m, rq_target := t, rq_protocol := p, rq_headers := header_map hs\<rparr>"
  let ?b = "?init\<lparr>rq_state := PARSSING_BODY, rq_is_chunked := True, rq_method := m, rq_target := t,
      rq_protocol := p, rq_headers := header_map hs\<rparr>"
  have "parse ?init (head_text m t p hs @ chunked_text cs ls @ rest) = parse_loop (after_headers ?r)"
    using assms(1) by (rule parse_head_text) (simp_all add: set_max_body_size_def new_request_def)
  also have "after_headers ?r = ?b\<lparr>rq_buffer := chunked_text cs ls @ rest\<rparr>"
    using assms(2,3) by (simp add: after_headers_def has_body_def get_header_value_def)
  also have "parse_loop \<dots> = (True, ?init
       \<lparr>rq_buffer := rest, rq_state := PARSSING_COMPLETE, rq_chunked_state := CHUNK_TRAILERS,
        rq_is_chunked := True, rq_method := m, rq_target := t, rq_protocol := p,
        rq_headers := header_map hs, rq_body := concat (map snd cs)\<rparr>)"
    using parse_chunks [OF assms(4,5), of ?b rest] assms(6)
    by (subst parse_loop_body, simp)
       (simp add: parse_body_def set_max_body_size_def new_request_def)
  finally show ?thesis .
qed

text \<open>
  C26. Round trip, chunked framing: parsing a well-formed head whose \<open>Transfer-Encoding\<close> is chunked
  followed by any sequence of chunks (with extensions), the last chunk and trailer lines succeeds;
  the body is the concatenation of the chunks' data, the trailers are dropped, \<open>Content-Length\<close> is
  ignored, and the bytes behind the message stay unread.
\<close>

theorem parse_chunked_request:
  assumes "wf_head m t p hs"
    and "map_of (header_map hs) ''transfer-encoding'' = Some te" and "te_chunked te"
    and "list_all wf_chunk cs" and "wf_trailers ls"
    and "mx = 0 \<or> length (concat (map snd cs)) \<le> unat mx"
  shows "parse (set_max_body_size mx new_request) (head_text m t p hs @ chunked_text cs ls @ rest) =
    (True, (set_max_body_size mx new_request)
       \<lparr>rq_buffer := rest, rq_state := PARSSING_COMPLETE, rq_chunked_state := CHUNK_TRAILERS,
        rq_is_chunked := True, rq_method := m, rq_target := t, rq_protocol := p,
        rq_headers := header_map hs, rq_body := concat (map snd cs)\<rparr>)"
  by (rule parse_chunked_text [OF assms])

theorem parse_chunked_request_witness:
  "parse (set_max_body_size 8 new_request)
     (head_text ''POST'' ''/u'' ''HTTP/1.1'' sample_chunked_fields @
      chunked_text [([], ''abc''), ('';x=1'', ''de'')] [''T: 1''] @ ''GET'') =
   (True, (set_max_body_size 8 new_request)
     \<lparr>rq_buffer := ''GET'', rq_state := PARSSING_COMPLETE, rq_chunked_state := CHUNK_TRAILERS,
      rq_is_chunked := True, rq_method := ''POST'', rq_target := ''/u'',
      rq_protocol := ''HTTP/1.1'', rq_headers := header_map sample_chunked_fields,
      rq_body := concat (map snd [([], ''abc''), ('';x=1'', ''de'')])\<rparr>)"
proof (rule parse_chunked_request [where te = "''Chunked''"], goal_cases)
  case 4
  show ?case by simp
qed code_simp+

text \<open>
  C39. Chunk sizes are read modulo \<open>2 ^ 64\<close>: a size line of any number of hexadecimal digits is
  accepted, the size kept is the value's remainder, and a value that is a non-zero multiple of
  \<open>2 ^ 64\<close> is taken for the last chunk.
\<close>

theorem chunk_size_modulo:
  assumes "CR \<notin> set ext" and "ext = [] \<or> hd ext = CHR '';''"
    and "list_all is_hex h" and "h \<noteq> []"
  shows "\<exists>n. parse_chunk_size (r\<lparr>rq_buffer := h @ ext @ crlf @ rest\<rparr>) =
      (True, r\<lparr>rq_buffer := rest, rq_chunk_remaining := n,
               rq_chunked_state := (if n = 0 then CHUNK_TRAILERS else CHUNK_DATA)\<rparr>) \<and>
    unat n = hex_val h mod 2 ^ 64"
  using parse_hex_size_line [OF assms(1,2), of h, where r = r and rest = rest] assms(3,4)
  by (intro exI [of _ "word_of_nat (hex_val h)"])
     (simp add: list_all_iff unat_size_mod word_of_nat_eq_0_mod)

theorem chunk_size_modulo_witness:
  "\<exists>n. parse_chunk_size (new_request\<lparr>rq_buffer := ''10000000000000000'' @ [] @ crlf @ ''rest''\<rparr>) =
      (True, new_request\<lparr>rq_buffer := ''rest'', rq_chunk_remaining := n,
               rq_chunked_state := (if n = 0 then CHUNK_TRAILERS else CHUNK_DATA)\<rparr>) \<and>
    unat n = hex_val ''10000000000000000'' mod 2 ^ 64"
  by (rule chunk_size_modulo) code_simp+

end
