(* ===== verification/ServerScripts.thy ===== *)
theory ServerScripts
  imports ServerProps RequestRoundtrip
begin

text \<open>
  What a script is given by the event loop of \<open>src/src/Server.cpp\<close>: the order of the body bytes on its
  input, the end of a chunked body, its environment, and that a request without a script is answered
  without waiting for one.
\<close>

section \<open>The body of a request\<close>

text \<open>
  C16. Bytes forwarded to a script overtake those queued for it: what the script gets from
  \<open>forward_bytes\<close> on is first the part of the new bytes the pipe takes at once, then the queue, then the
  rest of the new bytes. So the body arrives in order exactly when the queue was empty or the pipe
  took nothing.
\<close>

theorem forwarded_bytes_overtake_queue:
  assumes "wired net out" and "stdin_queue_ok c"
    and "forward_bytes net fd fwd c s w = (c', s', w')" and "fst (nt_write net fd fwd w) = n"
  shows "out fd w' @ cgi_stdin_queue c' = out fd w @ (if fwd = [] then [] else take n fwd) @ cgi_stdin_queue c @ drop n fwd"
proof -
  obtain m w1 where r: "nt_write net fd fwd w = (m, w1)" by (metis surj_pair)
  then have n: "n = m" using assms(4) by simp
  have le: "m \<le> length fwd" by (rule net_ok_write [OF wiredD(1) [OF assms(1)] r])
  show ?thesis
  proof (cases "fwd = [] \<or> \<not> m < length fwd")
    case True
    then show ?thesis
      using assms(3) r le wiredD(2) [OF assms(1) r] by (auto simp: forward_bytes_def n)
  next
    case False
    then have "c' = append_cgi_stdin_pending (drop m fwd) c" "w' = w1"
      using assms(3) r by (auto simp: forward_bytes_def Let_def split: if_split_asm)
    then show ?thesis
      using False stdin_queue.push_content [OF assms(2)] wiredD(2) [OF assms(1) r] by (simp add: n)
  qed
qed

theorem forwarded_bytes_overtake_queue_witness:
  "let c = append_cgi_stdin_pending ''first '' (start_cgi 1 4 5 (new_client 9 0 0));
       (c', s', w') = forward_bytes feed_net 4 ''second'' c (demo_client new_server) (new_feed [] [] [])
   in feed_out 4 w' @ cgi_stdin_queue c' = ''secondfirst ''"
proof -
  let ?c = "append_cgi_stdin_pending ''first '' (start_cgi 1 4 5 (new_client 9 0 0))"
  obtain c' s' w' where f: "forward_bytes feed_net 4 ''second'' ?c (demo_client new_server) (new_feed [] [] []) = (c', s', w')"
    by (metis prod_cases3)
  have 1: "fst (nt_write feed_net 4 ''second'' (new_feed [] [] [])) = 6" by code_simp
  have 2: "stdin_queue_ok ?c" "cgi_stdin_queue ?c = ''first ''" "feed_out 4 (new_feed [] [] []) = []" by code_simp+
  from forwarded_bytes_overtake_queue [OF feed_wired 2(1) f 1] f show ?thesis by (simp add: 2)
qed

section \<open>The end of a chunked body\<close>

lemma te_chunked_header:
  "map_of (header_map hs) ''transfer-encoding'' = Some te \<Longrightarrow> rq_headers r = header_map hs \<Longrightarrow>
     get_header_value r ''transfer-encoding'' = te"
  by (simp add: get_header_value_def)

lemma prepare_chunked:
  assumes "prepare_cgi pid i out c = (c', body, fin)" and "request_chunked (cl_request c)"
    and "rq_buffer (cl_request c) = []"
  shows "\<not> fin \<and> body = rq_body (cl_request c) \<and> cl_cgi_stdin_fd c' = i \<and> \<not> cl_stdin_eof c' \<and> cl_cgi_active c' \<and>
    cgi_stdin_queue c' = [] \<and> stdin_queue_ok c' \<and> cl_fd c' = cl_fd c"
  using assms
  by (auto simp: prepare_cgi_def Let_def init_cgi_chunk_decoder_def start_cgi_def stdin_queue_drop stdin_queue_ok_def)

lemma feed_unfinished:
  assumes "feed_cgi net fd body False c w = (c', w')" and "wired net out" and "cgi_stdin_queue c = []"
    and "stdin_queue_ok c"
  shows "out fd w' @ cgi_stdin_queue c' = out fd w @ body \<and> cl_cgi_stdin_fd c' = cl_cgi_stdin_fd c \<and>
    cl_stdin_eof c' = cl_stdin_eof c \<and> cl_cgi_active c' = cl_cgi_active c"
proof -
  obtain m w1 where r: "nt_write net fd body w = (m, w1)" by (metis surj_pair)
  have le: "m \<le> length body" by (rule net_ok_write [OF wiredD(1) [OF assms(2)] r])
  let ?c = "add_cgi_body_bytes_forwarded (length body) c"
  have q: "cgi_stdin_queue ?c = []" "stdin_queue_ok ?c"
    using assms(3,4) by (simp_all add: add_cgi_body_bytes_forwarded_def stdin_queue_drop stdin_queue_ok_def)
  show ?thesis
    using assms(1) r le wiredD(2) [OF assms(2) r] q stdin_queue.push_content [OF q(2)]
    by (cases "body = []"; cases "m < length body")
       (auto simp: feed_cgi_def Let_def add_cgi_body_bytes_forwarded_def append_cgi_stdin_pending_def)
qed

lemma contains_infix: "contains (a @ pat @ b) pat"
proof -
  have "find_sub pat (pat @ b) = Some 0" for b
  proof (cases "pat @ b")
    case (Cons x xs)
    then have "prefix pat (x # xs)" by (metis prefixI)
    with Cons show ?thesis by simp
  qed simp
  then have "find_sub pat (a @ pat @ b) \<noteq> None"
    by (induction a) auto
  then show ?thesis by (simp add: contains_def)
qed

lemma head_text_blank: "contains (head_text m t p hs @ rest) crlf2"
proof -
  have "\<exists>a. head_text m t p hs = a @ crlf2"
  proof (cases hs rule: rev_exhaust)
    case Nil
    then show ?thesis by (simp add: head_text_def)
  next
    case (snoc hs' h)
    obtain k a v b where h: "h = (k, a, v, b)" by (cases h)
    have "head_text m t p hs =
        (m @ [SP] @ t @ [SP] @ p @ crlf @ concat (map field_text hs') @ k @ '':'' @ a @ v @ b) @ crlf2"
      by (simp add: head_text_def snoc h)
    then show ?thesis by blast
  qed
  then obtain a where "head_text m t p hs @ rest = a @ crlf2 @ rest" by auto
  then show ?thesis using contains_infix [of a crlf2 rest] by simp
qed

lemma take_input_head:
  assumes "\<not> cl_request_started c" and "cl_buffer c = []"
  shows "take_input conf (head_text m t p hs @ rest) c =
    (c\<lparr>cl_request := set_max_body_size (peek_max_body (head_text m t p hs @ rest) conf) (cl_request c),
       cl_request_started := True\<rparr>, Some (head_text m t p hs @ rest))"
  using assms head_text_blank [of m t p hs rest]
  by (cases c) (simp add: take_input_def append_to_buffer_def has_complete_header_def clear_raw_buffer_def Let_def)

text \<open>
  A chunked request for a script that arrives in one piece: it is completely parsed before the script
  is started, so the decoder of the connection is left waiting for trailers that have been read
  already. The whole body has been handed over, but the script's input is open, without the mark that
  would close it.
\<close>

lemma chunked_script_started:
  assumes "wf_head m t p hs" and "map_of (header_map hs) ''transfer-encoding'' = Some te" and "te_chunked te"
    and "list_all wf_chunk cs" and "wf_trailers ls"
    and "bytes = head_text m t p hs @ chunked_text cs ls"
    and "mx = peek_max_body bytes (conf_of s c)" and "mx = 0 \<or> length (concat (map snd cs)) \<le> unat mx"
    and "match_route (strip_query_string t) (conf_of s c) = Some route"
    and "cgi_route route (strip_query_string t)" and "method_allowed route m"
    and "cl_request c = new_request" and "\<not> cl_request_started c" and "cl_buffer c = []"
    and "\<not> cl_cgi_active c"
    and "wired net out" and "nt_pipe net w = (Some (ri, wi), w1)" and "nt_pipe net w1 = (Some (ro, wo), w2)"
    and "\<forall>l. nt_fork net l w2 = (Some pid, w3)"
  shows "\<exists>c' w'. handle_input os net gw key c bytes idx s w =
      Some (put_client key c' (register_cgi ro False c' s), w') \<and>
    cl_cgi_active c' \<and> cl_cgi_stdin_fd c' = wi \<and> \<not> cl_stdin_eof c' \<and>
    out wi w' @ cgi_stdin_queue c' = out wi w @ concat (map snd cs)"
proof -
  let ?conf = "conf_of s c"
  define req where "req = (set_max_body_size mx new_request)
       \<lparr>rq_buffer := [], rq_state := PARSSING_COMPLETE, rq_chunked_state := CHUNK_TRAILERS,
        rq_is_chunked := True, rq_method := m, rq_target := t, rq_protocol := p,
        rq_headers := header_map hs, rq_body := concat (map snd cs)\<rparr>"
  have parsed: "parse (set_max_body_size mx new_request) bytes = (True, req)"
    using parse_chunked_text [OF assms(1-5,8), of "[]"] by (simp add: req_def assms(6))
  define c1 where "c1 = c\<lparr>cl_request_started := True, cl_request := req, cl_buffer := []\<rparr>"
  have taken: "take_input ?conf bytes c =
      (c\<lparr>cl_request := set_max_body_size mx new_request, cl_request_started := True\<rparr>, Some bytes)"
    using take_input_head [OF assms(13,14), of ?conf m t p hs "chunked_text cs ls"] assms(6,7,12) by simp
  have c1: "cl_request c1 = req" "\<not> cl_cgi_active c1" using assms(15) by (simp_all add: c1_def)
  have rq: "rq_method req = m" "is_headers_done req" "rq_target req = t"
    by (simp_all add: req_def is_headers_done_def)
  have tp: "target_path req = strip_query_string t"
    unfolding target_path_def strip_query_string_def rq ..
  have path: "(case find_char CHR ''?'' (rq_target req) of
      Some q \<Rightarrow> substr (rq_target req) 0 q | None \<Rightarrow> rq_target req) = strip_query_string t"
    unfolding strip_query_string_def rq ..
  have st: "starts_script c1 ?conf"
    using assms(9-11) by (simp add: starts_script_def c1 rq tp)
  have err: "\<not> is_error req" by (simp add: is_error_def req_def)
  have hi: "handle_input os net gw key c bytes idx s w = Some (dispatch_cgi os net key c1 idx s w)"
    using taken parsed st err by (simp add: handle_input_def Let_def clear_raw_buffer_def c1_def)
  have ch: "request_chunked (cl_request c1)" "rq_buffer (cl_request c1) = []"
    using assms(2,3) by (simp_all add: request_chunked_def c1 req_def get_header_value_def str_simps)
  obtain c2 body fin where pr: "prepare_cgi pid wi ro c1 = (c2, body, fin)" by (metis prod_cases3)
  note prep = prepare_chunked [OF pr ch]
  let ?w = "close_all net [ri, wo] w3"
  obtain c3 w4 where fe: "feed_cgi net wi body False c2 ?w = (c3, w4)" by (metis surj_pair)
  have "conf_of s c1 = ?conf" by (simp add: conf_of_def c1_def)
  then have di: "dispatch_cgi os net key c1 idx s w = (put_client key c3 (register_cgi ro False c3 s), w4)"
    using assms(9,17-19) pr fe prep
    by (simp add: dispatch_cgi_def Let_def c1 path)
  have "out wi ?w = out wi w"
    using wiredD(8) [OF assms(16,17)] wiredD(8) [OF assms(16,18)] wiredD(9) [OF assms(16) assms(19) [rule_format]]
      wired_close_all [OF assms(16)] by simp
  moreover have "body = concat (map snd cs)" using prep by (simp add: c1 req_def)
  ultimately show ?thesis
    using hi di feed_unfinished [OF fe assms(16)] prep
    by (intro exI [of _ c3] exI [of _ w4]) simp
qed

definition script_conf :: server_config where
  "script_conf = new_server\<lparr>sc_routes := [new_route\<lparr>rc_cgi_extension := ''.py''\<rparr>]\<rparr>"

section \<open>Requests without a script\<close>

lemma handle_request_script_free:
  assumes "\<forall>r. route = Some r \<longrightarrow>
      \<not> (cgi_route r (strip_query_string (rq_target req)) \<and> method_allowed r (rq_method req))"
  shows "handle_request os gw w req route conf \<noteq> None \<and>
    handle_request os gw w req route conf = handle_request os gw' w req route conf"
proof (cases route)
  case (Some r)
  then show ?thesis
    using assms by (cases "method_allowed r (rq_method req)") (simp_all add: handle_request_def)
qed (simp add: handle_request_def)

text \<open>
  C9. The event loop never waits for a script: whatever a client without a running script sends,
  \<open>handle_client_read\<close> answers it, asks for more or starts a script and returns, and its result does not
  depend on the executor of \<open>CGI.cpp\<close>, which could block; every request that
  would reach it in \<open>handle_request\<close> has been given to \<open>dispatch_cgi\<close> before.
\<close>

theorem input_never_waits:
  assumes "\<not> cl_cgi_active c"
  shows "handle_input os net gw key c bytes idx s w \<noteq> None \<and>
    handle_input os net gw key c bytes idx s w = handle_input os net gw' key c bytes idx s w"
proof -
  obtain c1 r where t: "take_input (conf_of s c) bytes c = (c1, r)" by (metis surj_pair)
  then have a1: "\<not> cl_cgi_active c1"
    using assms by (auto simp: take_input_def Let_def append_to_buffer_def clear_raw_buffer_def split: if_split_asm)
  show ?thesis
  proof (cases r)
    case None
    with t show ?thesis by (simp add: handle_input_def Let_def)
  next
    case (Some new_data)
    obtain complete req where p: "parse (cl_request c1) new_data = (complete, req)" by (metis surj_pair)
    define c2 where "c2 = (if cl_request_started (c1\<lparr>cl_request := req\<rparr>)
      then clear_raw_buffer (c1\<lparr>cl_request := req\<rparr>) else c1\<lparr>cl_request := req\<rparr>)"
    have c2: "cl_request c2 = req" "\<not> cl_cgi_active c2"
      using a1 by (simp_all add: c2_def clear_raw_buffer_def)
    have answer: "answer_request os g w req (conf_of s c) = answer_request os g' w req (conf_of s c) \<and>
        answer_request os g w req (conf_of s c) \<noteq> None"
      if "complete" "\<not> starts_script c2 (conf_of s c)" for g g'
    proof -
      have "is_headers_done req"
        using p that(1) parse_loop_done unfolding parse_def is_headers_done_def by blast
      then have "\<forall>r. match_route (target_path req) (conf_of s c) = Some r \<longrightarrow>
          \<not> (cgi_route r (strip_query_string (rq_target req)) \<and> method_allowed r (rq_method req))"
        using that(2) c2 by (auto simp: starts_script_def target_path_def strip_query_string_def)
      from handle_request_script_free [OF this, of os g w "conf_of s c" g']
      obtain x where "handle_request os g w req (match_route (target_path req) (conf_of s c)) (conf_of s c) = Some x"
        "handle_request os g' w req (match_route (target_path req) (conf_of s c)) (conf_of s c) = Some x"
        by (metis not_None_eq)
      then show ?thesis by (cases x) (simp add: answer_request_def Let_def)
    qed
    have h: "handle_input os net g key c bytes idx s w =
        (if is_error req then
               Some (put_client key (clear_buffer (set_response (to_string (reject_request os w req (conf_of s c))) c2))
                  (s\<lparr>sv_poll := (sv_poll s)[idx := (sv_poll s ! idx)\<lparr>pf_events := {POLLOUT}\<rparr>]\<rparr>), w)
             else if starts_script c2 (conf_of s c) then Some (dispatch_cgi os net key c2 idx s w)
             else if \<not> complete then Some (put_client key c2 s, w)
             else case answer_request os g w req (conf_of s c) of
                    None \<Rightarrow> None
                  | Some (response, w) \<Rightarrow>
                      Some (put_client key (clear_buffer (set_response (to_string response) c2))
                              (s\<lparr>sv_poll := (sv_poll s)[idx := or_event POLLOUT (sv_poll s ! idx)]\<rparr>), w))" for g
      by (simp only: handle_input_def Let_def t Some p prod.case option.case c2_def)
    show ?thesis
    proof (cases "complete \<and> \<not> starts_script c2 (conf_of s c)")
      case True
      with answer [of gw gw'] show ?thesis unfolding h by (auto split: option.split)
    next
      case False
      then show ?thesis unfolding h by auto
    qed
  qed
qed

theorem input_never_waits_witness:
  "handle_input feed_sys feed_net silent_gateway 9 (new_client 9 0 0) (''GET /x.py HTTP/1.1'' @ crlf2) 1
     (demo_client script_conf) (new_feed [] [] []) \<noteq> None \<and>
   handle_input feed_sys feed_net silent_gateway 9 (new_client 9 0 0) (''GET /x.py HTTP/1.1'' @ crlf2) 1
     (demo_client script_conf) (new_feed [] [] []) =
   handle_input feed_sys feed_net hello_gateway 9 (new_client 9 0 0) (''GET /x.py HTTP/1.1'' @ crlf2) 1
     (demo_client script_conf) (new_feed [] [] [])"
  by (rule input_never_waits) (simp add: new_client_def)

section \<open>The environment\<close>

text \<open>
  The two constructions of a script's environment, in \<open>Server.cpp\<close> and \<open>CGI.cpp\<close>, agree in every
  variable and its place except \<open>SCRIPT_FILENAME\<close>: the event loop passes the path as configured, the
  executor the resolved one, although both start the script in its own directory. They start the same
  program.
\<close>

theorem environments_agree:
  "\<exists>env. ln_env (dispatch_launch os w req route) =
       env @ [''SCRIPT_FILENAME='' @ rc_root route @ script_target req route, ''REDIRECT_STATUS=200''] \<and>
     ln_env (execute_launch os w req route) =
       env @ [''SCRIPT_FILENAME='' @ get_script_path os w req route, ''REDIRECT_STATUS=200''] \<and>
     ln_program (dispatch_launch os w req route) = ln_program (execute_launch os w req route) \<and>
     ln_script (dispatch_launch os w req route) = get_script_path os w req route"
proof -
  obtain sn qs where "(case find_char CHR ''?'' (rq_target req) of
      Some p \<Rightarrow> (substr (rq_target req) 0 p, drop (p + 1) (rq_target req)) | None \<Rightarrow> (rq_target req, [])) = (sn, qs)"
    by (metis surj_pair)
  then show ?thesis
    by (intro exI [of _ "butlast (butlast (ln_env (dispatch_launch os w req route)))"])
       (simp add: dispatch_launch_def execute_launch_def set_environment_def get_script_path_def resolved_def
         Let_def butlast_append)
qed

end
