(* ===== verification/ServerSilent.thy ===== *)
theory ServerSilent
  imports ServerScripts
begin

text \<open>
  What the event loop of \<open>src/src/Server.cpp\<close> does with the input of a running script while its client
  sends nothing and the kernel reports no hang-up on the script's input: it never closes the input and
  never marks its end. One lemma per handler, up to every run of the machine; and the chunked request that leaves a script with such an input.
\<close>

section \<open>A script whose input is open\<close>

definition keeps_open :: "int \<Rightarrow> client \<Rightarrow> bool" where
  "keeps_open wi c \<longleftrightarrow> (cl_cgi_active c \<longrightarrow> cl_cgi_stdin_fd c = wi \<and> \<not> cl_stdin_eof c)"

text \<open>The client under \<open>key\<close> has an open input \<open>wi\<close> while its script runs, and no other descriptor of the
  map of inputs leads to it.\<close>

definition holds_open :: "int \<Rightarrow> int \<Rightarrow> server \<Rightarrow> bool" where
  "holds_open key wi s \<longleftrightarrow>
     (\<forall>c. get_client s key = Some c \<longrightarrow> keeps_open wi c) \<and>
     (\<forall>fd. map_of (sv_cgi_in s) fd = Some key \<longrightarrow> fd = wi)"

lemma holds_open_client: "holds_open key wi s \<Longrightarrow> get_client s key = Some c \<Longrightarrow> keeps_open wi c"
  by (simp add: holds_open_def)

lemma get_put_client: "get_client (put_client k c s) k' = (if k' = k then Some c else get_client s k')"
  by (simp add: get_client_def put_client_def map_of_map_put)

lemma put_client_in [simp]: "sv_cgi_in (put_client k c s) = sv_cgi_in s"
  by (simp add: put_client_def)

lemma get_client_frame [simp]:
  "get_client (s\<lparr>sv_poll := p\<rparr>) k = get_client s k"
  "get_client (s\<lparr>sv_cgi_in := m\<rparr>) k = get_client s k"
  "get_client (s\<lparr>sv_cgi_out := m\<rparr>) k = get_client s k"
  by (simp_all add: get_client_def)

lemma holds_open_frame [simp]:
  "holds_open key wi (s\<lparr>sv_poll := p\<rparr>) = holds_open key wi s"
  "holds_open key wi (s\<lparr>sv_cgi_out := m\<rparr>) = holds_open key wi s"
  by (simp_all add: holds_open_def)

lemma holds_open_put:
  "holds_open key wi s \<Longrightarrow> (k = key \<Longrightarrow> keeps_open wi c) \<Longrightarrow> holds_open key wi (put_client k c s)"
  by (simp add: holds_open_def get_put_client)

lemma holds_open_erase_in:
  "holds_open key wi s \<Longrightarrow> holds_open key wi (s\<lparr>sv_cgi_in := map_erase fd (sv_cgi_in s)\<rparr>)"
  by (simp add: holds_open_def map_of_map_erase)

text \<open>Two states whose clients and inputs agree as far as \<open>key\<close> goes.\<close>

lemma holds_open_same:
  assumes "holds_open key wi s" and "sv_clients s' = sv_clients s"
    and "\<And>fd. map_of (sv_cgi_in s') fd = Some key \<Longrightarrow> map_of (sv_cgi_in s) fd = Some key"
  shows "holds_open key wi s'"
  using assms by (simp add: holds_open_def get_client_def)

section \<open>Operations of the client\<close>

text \<open>The members the property looks at.\<close>

definition input_state :: "client \<Rightarrow> bool \<times> int \<times> bool" where
  "input_state c = (cl_cgi_active c, cl_cgi_stdin_fd c, cl_stdin_eof c)"

lemma keeps_open_state: "input_state c' = input_state c \<Longrightarrow> keeps_open wi c' = keeps_open wi c"
  by (simp add: keeps_open_def input_state_def)

named_theorems input_simps "operations that leave the input of the script alone"

lemma input_state_neutral [input_simps]:
  "input_state (update_activity t c) = input_state c"
  "input_state (append_cgi_output b c) = input_state c"
  "input_state (append_cgi_send_pending b c) = input_state c"
  "input_state (clear_buffer c) = input_state c"
  "input_state (set_response r c) = input_state c"
  "input_state (clear_response c) = input_state c"
  "input_state (advance_response_offset m c) = input_state c"
  "input_state (c\<lparr>cl_headers_sent := b1\<rparr>) = input_state c"
  "input_state (c\<lparr>cl_cgi_stdout_fd := f\<rparr>) = input_state c"
  "input_state (consume_cgi_stdin_pending m c) = input_state c"
  "input_state (consume_cgi_send_pending m c) = input_state c"
  by (simp_all add: input_state_def update_activity_def append_cgi_output_def append_cgi_send_pending_def
      clear_buffer_def set_response_def clear_response_def advance_response_offset_def
      consume_cgi_stdin_pending_def consume_cgi_send_pending_def Let_def)

lemma finish_inactive: "finish_cgi c = (fds, pids, c') \<Longrightarrow> \<not> cl_cgi_active c'"
  by (auto simp: finish_cgi_def close_cgi_stdin_def Let_def split: if_split_asm)

lemma stream_output_input:
  "stream_output conf bytes c p = (c', p') \<Longrightarrow> input_state c' = input_state c"
  by (auto simp: stream_output_def Let_def input_simps split: if_split_asm option.split_asm)

lemma cgi_output_loop_input:
  "cgi_output_loop net conf fd idx t c p w = (e, c', p', w') \<Longrightarrow> input_state c' = input_state c"
proof (induction net conf fd idx t c p w rule: cgi_output_loop.induct)
  case (1 net conf fd idx t c p w)
  note unfold = cgi_output_loop.simps [of net conf fd idx t c p w]
  obtain res w1 where r: "nt_read net fd w = (res, w1)" by (metis surj_pair)
  show ?case
  proof (cases "\<not> FAIR_IO_LIMIT \<le> t \<and> (\<exists>b bs. res = Got b bs)")
    case False
    with 1(2) r show ?thesis by (cases res) (auto simp: unfold split: if_split_asm)
  next
    case True
    then obtain b bs where g: "res = Got b bs" and t: "\<not> FAIR_IO_LIMIT \<le> t" by blast
    obtain c1 p1 where s: "stream_output conf (b # bs) c p = (c1, p1)" by (metis surj_pair)
    show ?thesis
    proof (cases "CGI_BACKPRESSURE_LIMIT < cgi_send_pending_size c1")
      case True
      with 1(2) r g t s have "c' = c1" by (simp add: unfold)
      with stream_output_input [OF s] show ?thesis by simp
    next
      case False
      then have "cgi_output_loop net conf fd idx (t + length (b # bs)) c1 p1 w1 = (e, c', p', w')"
        using 1(2) r g t s by (simp add: unfold)
      from 1(1) [OF t r [symmetric] g s [symmetric] refl False this] stream_output_input [OF s]
      show ?thesis by simp
    qed
  qed
qed

lemma stdin_write_loop_input:
  "stdin_write_loop net fd t c w = (c', w') \<Longrightarrow> input_state c' = input_state c"
proof (induction net fd t c w rule: stdin_write_loop.induct)
  case (1 net fd t c w)
  note unfold = stdin_write_loop.simps [of net fd t c w]
  obtain m w1 where r: "nt_write net fd (cgi_stdin_queue c) w = (m, w1)" by (metis surj_pair)
  show ?case
  proof (cases "\<not> (is_cgi_stdin_pending_empty c \<or> FAIR_IO_LIMIT \<le> t) \<and> 0 < m")
    case False
    with 1(2) r show ?thesis by (auto simp: unfold split: if_split_asm)
  next
    case True
    then have n: "\<not> (is_cgi_stdin_pending_empty c \<or> FAIR_IO_LIMIT \<le> t)" and m: "0 < m" by blast+
    have "stdin_write_loop net fd (t + m) (consume_cgi_stdin_pending m c) w1 = (c', w')"
      using 1(2) n m r by (auto simp: unfold)
    from 1(1) [OF n r [symmetric] m this] show ?thesis by (simp add: input_simps)
  qed
qed

lemma send_loop_input:
  "send_loop net fd idx t c p w = (e, c', p', w') \<Longrightarrow> input_state c' = input_state c"
proof (induction net fd idx t c p w rule: send_loop.induct)
  case (1 net fd idx t c p w)
  note unfold = send_loop.simps [of net fd idx t c p w]
  obtain res w1 where r: "nt_send net fd (cgi_send_queue c) w = (res, w1)" by (metis surj_pair)
  show ?case
  proof (cases "\<not> FAIR_IO_LIMIT \<le> t \<and> cgi_send_pending_size c \<noteq> 0 \<and> (\<exists>m. res = Sent m)")
    case False
    with 1(2) r show ?thesis
      by (cases res) (auto simp: unfold Let_def input_simps split: if_split_asm)
  next
    case True
    then obtain m where m: "res = Sent m" and t: "\<not> FAIR_IO_LIMIT \<le> t" and z: "cgi_send_pending_size c \<noteq> 0"
      by blast
    let ?c = "update_activity (nt_now net w1) (consume_cgi_send_pending (Suc m) c)"
    have run: "send_loop net fd idx (t + Suc m) ?c (resume_output ?c p) w1 = (e, c', p', w')"
      using 1(2) t z r m by (simp add: unfold Let_def)
    from 1(1) [OF t z r [symmetric] m refl run] show ?thesis by (simp add: input_simps)
  qed
qed

section \<open>Handlers\<close>

lemma remove_client_open:
  assumes "remove_client net i s w = Some (s', w')" and "holds_open key wi s"
  shows "holds_open key wi s'"
proof -
  have i: "map_of (sv_cgi_in s') fd = Some k \<Longrightarrow> map_of (sv_cgi_in s) fd = Some k" for fd k
    using assms(1)
    by (auto simp: remove_client_def Let_def drop_cgi_in_def drop_cgi_out_def put_client_def map_of_map_erase
        split: if_split_asm option.split_asm prod.split_asm)
  have g: "get_client s' k = Some c \<Longrightarrow> get_client s k = Some c" for k c
    using remove_client_others [OF assms(1), of k] by (simp split: if_split_asm)
  show ?thesis using assms(2) i g unfolding holds_open_def by blast
qed

lemma accept_client_open:
  assumes "accept_client net fd s w = Some (s', w')" and "holds_open key wi s"
  shows "holds_open key wi s'"
proof -
  have one: "holds_open key wi (add_client f i now s)" if "holds_open key wi s" for f i now s
    using that
    by (auto simp: holds_open_def add_client_def get_client_def map_of_map_put keeps_open_def new_client_def)
  have "holds_open key wi s \<Longrightarrow> holds_open key wi (foldl (\<lambda>s f. add_client f i now s) s fds)" for i now fds s
    by (induction fds arbitrary: s) (simp_all add: one)
  with assms show ?thesis
    by (auto simp: accept_client_def Let_def split: if_split_asm prod.split_asm)
qed

lemma finalize_cgi_open:
  assumes "finalize_cgi os net k c idx s w = (s', w')" and "holds_open key wi s"
  shows "holds_open key wi s'"
proof -
  obtain fds pids c1 where f: "finish_cgi c = (fds, pids, c1)" by (metis prod_cases3)
  have off: "\<not> cl_cgi_active c1" by (rule finish_inactive [OF f])
  obtain p r where "s' = put_client k (clear_buffer c1) (s\<lparr>sv_poll := p\<rparr>) \<or>
      s' = put_client k (clear_buffer (set_response r c1)) (s\<lparr>sv_poll := p\<rparr>)"
    using assms(1) f by (auto simp: finalize_cgi_def Let_def split: if_split_asm)
  then show ?thesis
    using assms(2) off
    by (auto intro!: holds_open_put simp: keeps_open_def clear_buffer_def set_response_def)
qed

lemma handle_cgi_output_open:
  assumes "handle_cgi_output os net idx s w = Some (i, s', w')" and "holds_open key wi s"
  shows "holds_open key wi s'"
proof (cases "get_client_by_cgi_fd s (pf_fd (sv_poll s ! idx))")
  case None
  with assms show ?thesis
    by (auto simp: handle_cgi_output_def Let_def holds_open_def get_client_def split: if_split_asm)
next
  case (Some k)
  then obtain c where c: "get_client s k = Some c"
    by (auto simp: get_client_by_cgi_fd_def split: option.split_asm if_split_asm)
  obtain e c1 p1 w1 where l: "cgi_output_loop net (conf_of s c) (pf_fd (sv_poll s ! idx)) idx 0 c (sv_poll s) w
      = (e, c1, p1, w1)" by (metis prod_cases4)
  have k: "keeps_open wi c1" if "k = key"
    using that assms(2) c keeps_open_state [OF cgi_output_loop_input [OF l]] holds_open_client by blast
  show ?thesis
  proof (cases e)
    case False
    with assms Some c l k show ?thesis
      by (auto simp: handle_cgi_output_def Let_def intro!: holds_open_put split: if_split_asm)
  next
    case True
    let ?c = "c1\<lparr>cl_cgi_stdout_fd := - 1\<rparr>"
    let ?s = "put_client k ?c
        (s\<lparr>sv_cgi_out := map_erase (pf_fd (sv_poll s ! idx)) (sv_cgi_out s), sv_poll := erase_at idx p1\<rparr>)"
    from True assms(1) Some c l obtain ci w2 where
      f: "finalize_cgi os net k ?c ci ?s w2 = (s', w')"
      by (auto simp: handle_cgi_output_def Let_def split: if_split_asm prod.split_asm)
    have "keeps_open wi ?c" if "k = key" using k [OF that] by (simp add: keeps_open_def)
    then have "holds_open key wi ?s" using assms(2) by (intro holds_open_put) simp_all
    from finalize_cgi_open [OF f this] show ?thesis .
  qed
qed

lemma handle_cgi_stdin_writable_open:
  assumes "handle_cgi_stdin_writable net idx s w = Some (i, s', w')" and "holds_open key wi s"
  shows "holds_open key wi s'"
proof (cases "\<exists>k c. map_of (sv_cgi_in s) (pf_fd (sv_poll s ! idx)) = Some k \<and> get_client s k = Some c")
  case False
  then consider "map_of (sv_cgi_in s) (pf_fd (sv_poll s ! idx)) = None"
    | k where "map_of (sv_cgi_in s) (pf_fd (sv_poll s ! idx)) = Some k" "get_client s k = None"
    by (meson not_None_eq)
  then show ?thesis
    using assms(1,2) holds_open_erase_in [OF assms(2)]
    by cases (auto simp: handle_cgi_stdin_writable_def Let_def split: if_split_asm)
next
  case True
  then obtain k c where k: "map_of (sv_cgi_in s) (pf_fd (sv_poll s ! idx)) = Some k"
    and c: "get_client s k = Some c" by blast
  obtain c1 w1 where l: "stdin_write_loop net (pf_fd (sv_poll s ! idx)) 0 c w = (c1, w1)" by (metis surj_pair)
  obtain fds c2 where cl: "close_cgi_stdin c1 = (fds, c2)" by (metis surj_pair)
  have open1: "keeps_open wi c1" if "k = key"
    using that assms(2) c keeps_open_state [OF stdin_write_loop_input [OF l]] holds_open_client by blast
  show ?thesis
  proof (cases "is_cgi_stdin_pending_empty c1 \<and> cl_stdin_eof c1")
    case True
    with assms(1) k c l cl have "s' = put_client k c2
        (s\<lparr>sv_cgi_in := map_erase (pf_fd (sv_poll s ! idx)) (sv_cgi_in s), sv_poll := erase_at idx (sv_poll s)\<rparr>)"
      by (auto simp: handle_cgi_stdin_writable_def Let_def split: if_split_asm)
    moreover have "keeps_open wi c2" if "k = key"
      using open1 [OF that] True cl by (auto simp: keeps_open_def close_cgi_stdin_def split: if_split_asm)
    ultimately show ?thesis
      using holds_open_erase_in [OF assms(2), of "pf_fd (sv_poll s ! idx)"]
      by (auto intro!: holds_open_put)
  next
    case False
    with assms(1) k c l have "s' = put_client k c1 s \<or> (\<exists>p. s' = put_client k c1 (s\<lparr>sv_poll := p\<rparr>))"
      by (auto simp: handle_cgi_stdin_writable_def Let_def split: if_split_asm)
    with assms(2) open1 show ?thesis by (auto intro!: holds_open_put)
  qed
qed

text \<open>Another client's input: the map of inputs gets entries of that client only.\<close>

definition same_inputs :: "int \<Rightarrow> server \<Rightarrow> server \<Rightarrow> bool" where
  "same_inputs key s s' \<longleftrightarrow>
     (\<forall>fd. map_of (sv_cgi_in s') fd = Some key \<longrightarrow> map_of (sv_cgi_in s) fd = Some key)"

lemma same_inputs_simps [simp]:
  "same_inputs key s s"
  "same_inputs key s (s\<lparr>sv_poll := p\<rparr>)"
  "same_inputs key s (s\<lparr>sv_cgi_in := map_erase fd (sv_cgi_in s)\<rparr>)"
  "same_inputs key s (s\<lparr>sv_cgi_in := map_erase fd (sv_cgi_in s), sv_poll := p\<rparr>)"
  "k \<noteq> key \<Longrightarrow> same_inputs key s (s\<lparr>sv_cgi_in := map_put fd k (sv_cgi_in s), sv_poll := p\<rparr>)"
  by (simp_all add: same_inputs_def map_of_map_erase map_of_map_put)

lemma same_inputs_trans: "same_inputs key s s' \<Longrightarrow> same_inputs key s' s'' \<Longrightarrow> same_inputs key s s''"
  by (simp add: same_inputs_def)

lemma forward_bytes_inputs:
  "forward_bytes net fd fwd c s w = (c', s', w') \<Longrightarrow> cl_fd c \<noteq> key \<Longrightarrow> same_inputs key s s'"
  by (auto simp: forward_bytes_def Let_def append_cgi_stdin_pending_def split: if_split_asm prod.split_asm)

lemma body_ended_inputs:
  "body_ended net fd c s w = (c', s', w') \<Longrightarrow> same_inputs key s s'"
  by (auto simp: body_ended_def Let_def split: if_split_asm prod.split_asm)

lemma forward_read_inputs:
  assumes "forward_read net bytes c s w = (b, c', s', w')" and "cl_fd c \<noteq> key"
  shows "same_inputs key s s'"
proof -
  have two: "same_inputs key s s'"
    if "forward_bytes net fd fwd c2 s w = (c3, s3, w3)" and "cl_fd c2 = cl_fd c"
      and "(if q then (False, body_ended net fd c3 s3 w3) else (True, c3, s3, w3)) = (b, c', s', w')"
    for c2 c3 s3 w3 fd fwd q
    using forward_bytes_inputs [OF that(1), of key] body_ended_inputs [of net fd c3 s3 w3 c' s' w' key]
      same_inputs_trans that(2,3) assms(2)
    by (cases q) auto
  have dec: "cl_fd c2 = cl_fd c1" if "decode_chunked_for_cgi bytes c1 = (ok, c2, d, e)" for c1 ok c2 d e
    using that decode_loop_ok by (fastforce simp: decode_chunked_for_cgi_def)
  have up: "cl_fd (update_activity t c) = cl_fd c" for t by (simp add: update_activity_def)
  have add: "cl_fd (add_cgi_body_bytes_forwarded m c) = cl_fd c" for m c
    by (simp add: add_cgi_body_bytes_forwarded_def)
  show ?thesis
    using assms(1) two dec
    by (auto simp: forward_read_def Let_def up add split: if_split_asm prod.split_asm bool.split_asm)
qed

lemma cgi_read_loop_inputs:
  "cgi_read_loop net idx t c s w = (c', s', w') \<Longrightarrow> client_ok n k c \<Longrightarrow> k \<noteq> key \<Longrightarrow> same_inputs key s s'"
proof (induction net idx t c s w rule: cgi_read_loop.induct)
  case (1 net idx t c s w)
  note unfold = cgi_read_loop.simps [of net idx t c s w]
  obtain res w1 where r: "nt_read net (cl_fd c) w = (res, w1)" by (metis surj_pair)
  show ?case
  proof (cases "\<not> FAIR_IO_LIMIT \<le> t \<and> \<not> CGI_BACKPRESSURE_LIMIT < cgi_stdin_pending_size c \<and> (\<exists>x xs. res = Got x xs)")
    case False
    with 1(2) r show ?thesis
      by (cases res) (auto simp: unfold split: if_split_asm prod.split_asm)
  next
    case True
    then obtain x xs where g: "res = Got x xs" and t: "\<not> FAIR_IO_LIMIT \<le> t"
      and b: "\<not> CGI_BACKPRESSURE_LIMIT < cgi_stdin_pending_size c" by blast
    obtain more' c2 s2 w2 where f: "forward_read net (x # xs) c s w1 = (more', c2, s2, w2)" by (metis prod_cases4)
    have fd: "cl_fd c \<noteq> key" using 1(3,4) by (simp add: client_ok_def)
    note same = forward_read_inputs [OF f fd]
    have ok: "client_ok n k c2" using forward_read_ok [OF f] 1(3) by blast
    show ?thesis
    proof (cases more')
      case True
      have "cgi_read_loop net idx (t + length (x # xs)) c2 s2 w2 = (c', s', w')"
        using 1(2) t b r g f True by (simp add: unfold)
      from 1(1) [OF t b r [symmetric] g f [symmetric] _ refl refl this ok 1(4)] True
      show ?thesis using same same_inputs_trans by blast
    next
      case False
      with 1(2) t b r g f have "s' = s2" by (simp add: unfold)
      with same show ?thesis by simp
    qed
  qed
qed

lemma dispatch_cgi_open:
  assumes "dispatch_cgi os net k c idx s w = (s', w')" and "holds_open key wi s"
    and "client_ok n k c" and "k \<noteq> key"
  shows "holds_open key wi s'"
  using assms(1)
proof (cases rule: dispatch_cgi_cases)
  case (started pid i out c1 body fin w1 c2)
  have "cl_fd c2 = k"
    using feed_cgi_ok [OF started(2) prepare_cgi_ok [OF started(1) assms(3)]] by (simp add: client_ok_def)
  then have "holds_open key wi (register_cgi out fin c2 s)"
    using assms(4) by (intro holds_open_same [OF assms(2)])
      (auto simp: register_cgi_def Let_def map_of_map_put split: if_split_asm)
  with started(3) assms(4) show ?thesis by (simp add: holds_open_put)
qed (use assms in \<open>auto simp: dispatch_failed_def Let_def intro!: holds_open_put\<close>)

lemma handle_input_open:
  assumes "handle_input os net gw k c bytes idx s w = Some (s', w')" and "holds_open key wi s"
    and "client_ok n k c" and "k \<noteq> key"
  shows "holds_open key wi s'"
  using assms(1)
proof (cases rule: handle_input_cases)
  case (script c')
  from dispatch_cgi_open [OF script(2) assms(2) _ assms(4)] script(1) assms(3) show ?thesis by blast
qed (use assms in \<open>auto intro!: holds_open_put\<close>)

text \<open>A kernel in which the client sends nothing more, and one that reports no hang-up on a descriptor.\<close>

definition silent :: "'w net \<Rightarrow> int \<Rightarrow> bool" where
  "silent net key \<longleftrightarrow> (\<forall>w. fst (nt_read net key w) = Again)"

definition hangup :: "pollfd \<Rightarrow> bool" where
  "hangup x \<longleftrightarrow> pf_revents x \<inter> {POLLHUP, POLLERR, POLLNVAL} \<noteq> {}"

definition never_hangs_up :: "'w net \<Rightarrow> int \<Rightarrow> bool" where
  "never_hangs_up net fd \<longleftrightarrow>
     (\<forall>ps w rs. fst (nt_poll net ps w) = Polled rs \<longrightarrow> (\<forall>x \<in> set (set_revents rs ps). pf_fd x = fd \<longrightarrow> \<not> hangup x))"

lemma handle_client_read_open:
  assumes "handle_client_read os net gw idx s w = Some (i, s', w')" and "holds_open key wi s"
    and "server_inv s" and "silent net key"
  shows "holds_open key wi s'"
proof (cases "get_client s (pf_fd (sv_poll s ! idx))")
  case None
  with assms show ?thesis by (auto simp: handle_client_read_def Let_def split: if_split_asm)
next
  case (Some c)
  let ?k = "pf_fd (sv_poll s ! idx)"
  note ok = inv_client [OF assms(3) Some]
  have again: "fst (nt_read net (cl_fd c) w) = Again" if "?k = key" for w
    using that ok assms(4) by (simp add: client_ok_def silent_def)
  show ?thesis
  proof (cases "cl_cgi_active c")
    case True
    obtain c1 s1 w1 where l: "cgi_read_loop net idx 0 c s w = (c1, s1, w1)" by (metis prod_cases3)
    with assms(1) Some True have s': "s' = put_client ?k c1 s1"
      by (auto simp: handle_client_read_def Let_def split: if_split_asm)
    show ?thesis
    proof (cases "?k = key")
      case True
      obtain w2 where "nt_read net (cl_fd c) w = (Again, w2)" using again [OF True] by (metis prod.collapse)
      then have "c1 = c \<and> (s1 = s \<or> (\<exists>p. s1 = s\<lparr>sv_poll := p\<rparr>))"
        using l by (auto simp: cgi_read_loop.simps [of net idx 0 c s w] split: if_split_asm)
      with s' assms(2) Some True holds_open_client [of key wi s c] show ?thesis by (auto intro!: holds_open_put)
    next
      case False
      have "same_clients s s1" using cgi_read_loop_ok [OF l] by blast
      moreover have "same_inputs key s s1" by (rule cgi_read_loop_inputs [OF l ok False])
      ultimately have "holds_open key wi s1"
        by (intro holds_open_same [OF assms(2)]) (simp_all add: same_clients_def same_inputs_def)
      with s' False show ?thesis by (simp add: holds_open_put)
    qed
  next
    case False
    let ?c = "update_activity (nt_now net w) c"
    let ?s = "put_client ?k ?c s"
    have s: "holds_open key wi ?s"
      using assms(2) False by (intro holds_open_put) (simp_all add: keeps_open_def update_activity_def)
    have okc: "client_ok (length (sv_configs s)) ?k ?c" using ok by (simp add: client_simps)
    obtain res w1 where r: "nt_read net (cl_fd ?c) w = (res, w1)" by (metis surj_pair)
    have key: "res = Again" if "?k = key" using again [OF that, of w] r by (simp add: update_activity_def)
    from assms(1) Some False r consider "s' = ?s" | "remove_client net idx ?s w1 = Some (s', w')"
      | bytes where "res \<noteq> Again" "handle_input os net gw ?k ?c bytes idx ?s w1 = Some (s', w')"
      by (cases res) (auto simp: handle_client_read_def Let_def split: if_split_asm)
    then show ?thesis
    proof cases
      case 3
      with key have "?k \<noteq> key" by blast
      from handle_input_open [OF 3(2) s okc this] show ?thesis .
    next
      case 2
      from remove_client_open [OF this s] show ?thesis .
    qed (use s in simp)
  qed
qed

lemma send_response_open:
  assumes "send_response net k c idx s w = Some (b, s', w')" and "holds_open key wi s"
    and "k = key \<Longrightarrow> keeps_open wi c"
  shows "holds_open key wi s'"
proof -
  obtain res w1 where r: "nt_send net (cl_fd c) (drop (cl_response_offset c) (cl_response c)) w = (res, w1)"
    by (metis surj_pair)
  show ?thesis
  proof (cases res)
    case (Sent m)
    define d where "d = update_activity (nt_now net w1) (advance_response_offset (Suc m) c)"
    have "input_state d = input_state c" "input_state (clear_response d) = input_state c"
      by (simp_all add: d_def input_simps)
    then have d: "k = key \<Longrightarrow> keeps_open wi d" "k = key \<Longrightarrow> keeps_open wi (clear_response d)"
      using assms(3) keeps_open_state by blast+
    let ?s = "put_client k (clear_response d)
                (s\<lparr>sv_poll := (sv_poll s)[idx := drop_event POLLOUT (sv_poll s ! idx)]\<rparr>)"
    have "holds_open key wi ?s" using assms(2) d(2) by (simp add: holds_open_put)
    moreover have "s' = put_client k d s \<or> remove_client net idx ?s w1 = Some (s', w')"
      using assms(1) r Sent by (auto simp: send_response_def Let_def d_def split: if_split_asm)
    ultimately show ?thesis
      using holds_open_put [OF assms(2) d(1)] remove_client_open [of net idx ?s w1 s' w' key wi]
      by (elim disjE) simp_all
  qed (use assms(1,2) r remove_client_open in \<open>auto simp: send_response_def\<close>)
qed

lemma handle_poll_output_open:
  assumes "handle_poll_output net idx s w = Some (b, i, s', w')" and "holds_open key wi s"
  shows "holds_open key wi s'"
proof (cases "POLLOUT \<in> pf_revents (sv_poll s ! idx) \<and> \<not> isCgiStdinFd s (pf_fd (sv_poll s ! idx))")
  case False
  with assms show ?thesis
    by (auto simp: handle_poll_output_def Let_def dest: handle_cgi_stdin_writable_open split: if_split_asm)
next
  case True
  let ?k = "pf_fd (sv_poll s ! idx)"
  show ?thesis
  proof (cases "get_client s ?k")
    case None
    with assms True show ?thesis by (auto simp: handle_poll_output_def Let_def split: if_split_asm)
  next
    case (Some c)
    have open1: "?k = key \<Longrightarrow> keeps_open wi c" using Some assms(2) holds_open_client by metis
    obtain ex c1 p1 w1 where l: "send_loop net ?k idx 0 c (sv_poll s) w = (ex, c1, p1, w1)"
      by (metis prod_cases4)
    let ?s = "put_client ?k c1 (s\<lparr>sv_poll := p1\<rparr>)"
    have s: "holds_open key wi ?s"
      using assms(2) open1 keeps_open_state [OF send_loop_input [OF l]] by (simp add: holds_open_put)
    consider "s' = ?s" | "remove_client net idx ?s w1 = Some (s', w')" | "s' = s"
      | "send_response net ?k c idx s w = Some (b, s', w')"
      using assms(1) True Some l
      by (auto simp: handle_poll_output_def Let_def split: if_split_asm send_exit.split_asm)
    then show ?thesis
    proof cases
      case 2
      from remove_client_open [OF this s] show ?thesis .
    next
      case 4
      from send_response_open [OF this assms(2) open1] show ?thesis .
    qed (use s assms(2) in simp_all)
  qed
qed

text \<open>The only handler that closes a script's input on an event of its descriptor.\<close>

lemma handle_poll_errors_open:
  assumes "handle_poll_errors net idx s w = Some (b, s', w')" and "holds_open key wi s"
    and "pf_fd (sv_poll s ! idx) = wi \<Longrightarrow> \<not> hangup (sv_poll s ! idx)"
  shows "holds_open key wi s'"
proof -
  let ?fd = "pf_fd (sv_poll s ! idx)"
  let ?s0 = "s\<lparr>sv_cgi_in := map_erase ?fd (sv_cgi_in s)\<rparr>"
  have s0: "holds_open key wi ?s0" by (rule holds_open_erase_in [OF assms(2)])
  have closed: "holds_open key wi s1"
    if "(case map_of (sv_cgi_in s) ?fd of
           None \<Rightarrow> (?s0, w0)
         | Some k \<Rightarrow>
            (case get_client s k of
               None \<Rightarrow> (?s0, w0)
             | Some c \<Rightarrow> let (fds, c) = close_cgi_stdin c in (put_client k c ?s0, close_all net fds w0)))
         = (s1, w1)" and "?fd \<noteq> wi" for w0 s1 w1
  proof -
    have "k \<noteq> key" if "map_of (sv_cgi_in s) ?fd = Some k" for k
      using that \<open>?fd \<noteq> wi\<close> assms(2) by (auto simp: holds_open_def)
    with that(1) s0 show ?thesis
      by (auto intro!: holds_open_put split: option.split_asm prod.split_asm)
  qed
  have "?fd \<noteq> wi" if "hangup (sv_poll s ! idx)" using that assms(3) by blast
  then show ?thesis
    using assms(1,2)
    by (auto simp: handle_poll_errors_def hangup_def Let_def split: if_split_asm prod.split_asm
        dest!: closed dest: remove_client_open)
qed

lemma handle_poll_input_open:
  assumes "handle_poll_input os net gw idx s w = Some (b, i, s', w')" and "holds_open key wi s"
    and "server_inv s" and "silent net key"
  shows "holds_open key wi s'"
  using assms
  by (auto simp: handle_poll_input_def Let_def split: if_split_asm
      dest: handle_cgi_output_open accept_client_open handle_client_read_open)

section \<open>The machine\<close>

text \<open>The descriptor's entries carry no hang-up.\<close>

definition unhung :: "int \<Rightarrow> pollfd list \<Rightarrow> bool" where
  "unhung fd ps \<longleftrightarrow> (\<forall>x \<in> set ps. pf_fd x = fd \<longrightarrow> \<not> hangup x)"

lemma unhung_evolves: "evolves p q \<Longrightarrow> unhung fd p \<Longrightarrow> unhung fd q"
  using evolves_entry [of p q] unfolding unhung_def hangup_def by (metis Int_empty_left)

lemma scan_turn_open:
  assumes "net_ok net" and "silent net key" and "scan_turn os net gw idx s w = Some (i, s', w')"
    and "server_inv s" and "holds_open key wi s" and "unhung wi (sv_poll s)" and "idx < length (sv_poll s)"
  shows "holds_open key wi s' \<and> unhung wi (sv_poll s')"
proof -
  have h: "pf_fd (sv_poll s ! idx) = wi \<Longrightarrow> \<not> hangup (sv_poll s ! idx)"
    using assms(6,7) by (simp add: unhung_def)
  have err: "holds_open key wi s1 \<and> unhung wi (sv_poll s1)"
    if "handle_poll_errors net idx s w = Some (b, s1, w1)" for b s1 w1
  proof -
    have "evolves (sv_poll s) (sv_poll s1)"
      using handle_poll_errors_advances [OF that] loses_evolves_only [of idx "sv_poll s" "sv_poll s1"]
      by (cases b) (simp_all add: evolves_same)
    with handle_poll_errors_open [OF that assms(5) h] assms(6) show ?thesis using unhung_evolves by blast
  qed
  have inp: "holds_open key wi s2 \<and> unhung wi (sv_poll s2)"
    if "handle_poll_errors net idx s w = Some (b, s1, w1)"
      "handle_poll_input os net gw idx s1 w1 = Some (b', j, s2, w2)" for b s1 w1 b' j s2 w2
  proof -
    have "server_inv s1" using handle_poll_errors_ok [OF assms(4) that(1)] by simp
    with handle_poll_input_open [OF that(2) _ _ assms(2)] err [OF that(1)]
    have "holds_open key wi s2" by blast
    moreover have "evolves (sv_poll s1) (sv_poll s2)"
      using handle_poll_input_advances [OF that(2)] advances_evolves by (auto split: if_split_asm)
    ultimately show ?thesis using err [OF that(1)] unhung_evolves by blast
  qed
  have outp: "holds_open key wi s3 \<and> unhung wi (sv_poll s3)"
    if "handle_poll_errors net idx s w = Some (b, s1, w1)"
      "handle_poll_input os net gw idx s1 w1 = Some (b', j, s2, w2)"
      "handle_poll_output net j s2 w2 = Some (b'', k, s3, w3)" for b s1 w1 b' j s2 w2 b'' k s3 w3
  proof -
    have "evolves (sv_poll s2) (sv_poll s3)"
      using handle_poll_output_advances [OF that(3)] advances_evolves by (auto split: if_split_asm)
    with handle_poll_output_open [OF that(3)] inp [OF that(1,2)] show ?thesis using unhung_evolves by blast
  qed
  show ?thesis
    using assms(3)
  proof (cases rule: scan_turn_cases)
    case errors
    from err [OF errors(1)] show ?thesis .
  next
    case (input s1 w1)
    from inp [OF input] show ?thesis .
  next
    case (output_done s1 w1 j s2 w2)
    from outp [OF output_done] show ?thesis .
  next
    case (next_entry s1 w1 j s2 w2 k s3)
    from outp [OF next_entry(1-3)] next_entry(4,6) show ?thesis
      by (auto simp: unhung_def hangup_def dest!: subsetD [OF set_update_subset_insert])
  qed
qed

text \<open>In every state of the machine, and while the scan runs.\<close>

definition stays_open :: "int \<Rightarrow> int \<Rightarrow> 'w loop_state \<Rightarrow> bool" where
  "stays_open key wi x \<longleftrightarrow>
     (case x of (ph, s, w) \<Rightarrow> server_inv s \<and> holds_open key wi s \<and>
        (case ph of Scanning i \<Rightarrow> unhung wi (sv_poll s) | _ \<Rightarrow> True))"

lemma step_stays_open:
  assumes "server_step os net gw x y" and "net_ok net" and "silent net key" and "never_hangs_up net wi"
    and "stays_open key wi x"
  shows "stays_open key wi y"
  using assms
proof (induction rule: server_step.induct)
  case (polled w s rs w')
  then have "unhung wi (set_revents rs (sv_poll s))"
    by (simp add: never_hangs_up_def unhung_def) (metis fst_conv)
  with polled show ?case by (simp add: stays_open_def)
next
  case (turn i s w j s' w')
  then show ?case
    using scan_turn_open [of net key os gw i s w j s' w' wi] scan_turn_ok [of net s os gw i w j s' w']
    by (simp add: stays_open_def)
next
  case (expire i s now w s' w')
  then show ?case
    using remove_client_open [of net i s w s' w' key wi] inv_remove [of s net i w s' w']
    by (simp add: stays_open_def)
qed (simp_all add: stays_open_def)

lemma run_stays_open:
  "(server_step os net gw)\<^sup>*\<^sup>* x y \<Longrightarrow> net_ok net \<Longrightarrow> silent net key \<Longrightarrow> never_hangs_up net wi \<Longrightarrow>
     stays_open key wi x \<Longrightarrow> stays_open key wi y"
  by (induction rule: rtranclp_induct) (blast intro: step_stays_open)+

section \<open>A chunked body that arrived whole\<close>

text \<open>A turn of the scan on an entry that is only readable, up to the end of \<open>handle_input\<close>.\<close>

lemma read_turn:
  assumes "idx < length (sv_poll s)" and "pf_fd (sv_poll s ! idx) = key" and "pf_revents (sv_poll s ! idx) = {POLLIN}"
    and "\<not> isListeningSocket s key" and "\<not> isCgiFd s key" and "\<not> isCgiStdinFd s key"
    and "get_client s key = Some c" and "\<not> cl_cgi_active c"
    and "nt_read net (cl_fd c) w = (Got b bs, w1)"
    and "handle_input os net gw key (update_activity (nt_now net w) c) (b # bs) idx
      (put_client key (update_activity (nt_now net w) c) s) w1 = Some (s', w')"
    and "idx < length (sv_poll s')" and "sv_poll s' ! idx = sv_poll s ! idx"
  shows "scan_turn os net gw idx s w =
    Some (idx + 1, s'\<lparr>sv_poll := (sv_poll s')[idx := (sv_poll s' ! idx)\<lparr>pf_revents := {}\<rparr>]\<rparr>, w')"
proof -
  have fd: "cl_fd (update_activity t c) = cl_fd c" for t by (simp add: update_activity_def)
  have e: "handle_poll_errors net idx s w = Some (False, s, w)"
    using assms(1,3) by (simp add: handle_poll_errors_def)
  have "handle_client_read os net gw idx s w = Some (idx, s', w')"
    using assms(1,2,7-10) by (simp add: handle_client_read_def Let_def fd)
  then have i: "handle_poll_input os net gw idx s w = Some (False, idx, s', w')"
    using assms(1-6) by (simp add: handle_poll_input_def Let_def)
  have "handle_poll_output net idx s' w' = Some (False, idx, s', w')"
    using assms(3,11,12) by (simp add: handle_poll_output_def)
  with e i assms(11) show ?thesis by (simp add: scan_turn_def)
qed

lemma register_cgi_poll:
  "\<exists>ps. sv_poll (register_cgi fd fin c s) = sv_poll s @ ps \<and> (\<forall>x \<in> set ps. pf_revents x = {})"
proof (cases "cl_cgi_stdin_fd c \<noteq> - 1 \<and> (\<not> fin \<or> \<not> is_cgi_stdin_pending_empty c)")
  case True
  then show ?thesis
    by (intro exI [of _ "[poll_entry fd POLLIN, poll_entry (cl_cgi_stdin_fd c) POLLOUT]"])
       (auto simp: register_cgi_def Let_def poll_entry_def)
next
  case False
  then show ?thesis
    by (intro exI [of _ "[poll_entry fd POLLIN]"]) (auto simp: register_cgi_def Let_def poll_entry_def)
qed

lemma register_cgi_inputs:
  "map_of (sv_cgi_in (register_cgi fd fin c s)) f = Some k \<Longrightarrow>
     f = cl_cgi_stdin_fd c \<or> map_of (sv_cgi_in s) f = Some k"
  by (auto simp: register_cgi_def Let_def map_of_map_put split: if_split_asm)

text \<open>
  C15. A script never sees the end of a chunked body that arrived whole, as long as its client keeps the
  connection open and waits. Let the scan reach the readable entry of a fresh client whose next
  \<open>read\<close> gives a whole well-formed chunked request for a script. The turn starts the script with its
  input \<open>wi\<close> and hands the whole body over (to the pipe or to the queue for it). From there on, in
  every run of the event loop on any kernel that gives no further byte of that client, not even its
  end, and reports no hang-up on \<open>wi\<close> (the script neither closes its input nor exits), and in every
  state of it in which the script is still active, the connection still holds \<open>wi\<close> open and the mark
  that would make the loop close it is not set. A script that reads to the end of its input waits.
\<close>

theorem chunked_script_input_stays_open:
  assumes "wf_head m t p hs" and "map_of (header_map hs) ''transfer-encoding'' = Some te" and "te_chunked te"
    and "list_all wf_chunk cs" and "wf_trailers ls"
    and "b # bs = head_text m t p hs @ chunked_text cs ls"
    and "mx = peek_max_body (b # bs) (conf_of s c)" and "mx = 0 \<or> length (concat (map snd cs)) \<le> unat mx"
    and "match_route (strip_query_string t) (conf_of s c) = Some route"
    and "cgi_route route (strip_query_string t)" and "method_allowed route m"
    and "cl_request c = new_request" and "\<not> cl_request_started c" and "cl_buffer c = []"
    and "\<not> cl_cgi_active c"
    and "idx < length (sv_poll s)" and "pf_fd (sv_poll s ! idx) = key" and "pf_revents (sv_poll s ! idx) = {POLLIN}"
    and "\<not> isListeningSocket s key" and "\<not> isCgiFd s key" and "\<not> isCgiStdinFd s key"
    and "server_inv s" and "get_client s key = Some c" and "\<forall>fd. map_of (sv_cgi_in s) fd \<noteq> Some key"
    and "wired net out" and "nt_read net key w = (Got b bs, w1)"
    and "nt_pipe net w1 = (Some (ri, wi), w2)" and "nt_pipe net w2 = (Some (ro, wo), w3)"
    and "\<forall>l. nt_fork net l w3 = (Some pid, w4)" and "wi \<notin> pf_fd ` set (sv_poll s)"
  shows "\<exists>s1 w'. scan_turn os net gw idx s w = Some (idx + 1, s1, w') \<and>
    (\<exists>c1. get_client s1 key = Some c1 \<and> cl_cgi_active c1 \<and>
       out wi w' @ cgi_stdin_queue c1 = out wi w1 @ concat (map snd cs)) \<and>
    (\<forall>net' ph s2 w2 c2. net_ok net' \<and> silent net' key \<and> never_hangs_up net' wi \<and>
       (server_step os net' gw)\<^sup>*\<^sup>* (Scanning (idx + 1), s1, w') (ph, s2, w2) \<and>
       get_client s2 key = Some c2 \<and> cl_cgi_active c2 \<longrightarrow>
       cl_cgi_stdin_fd c2 = wi \<and> \<not> cl_stdin_eof c2)"
proof -
  let ?c = "update_activity (nt_now net w) c"
  let ?s = "put_client key ?c s"
  have fd: "cl_fd c = key" using inv_client [OF assms(22,23)] by (simp add: client_ok_def)
  have c: "conf_of ?s ?c = conf_of s c" "cl_request ?c = new_request" "\<not> cl_request_started ?c"
    "cl_buffer ?c = []" "\<not> cl_cgi_active ?c"
    using assms(12-15) by (simp_all add: update_activity_def conf_of_def)
  obtain c1 w' where h: "handle_input os net gw key ?c (b # bs) idx ?s w1 =
      Some (put_client key c1 (register_cgi ro False c1 ?s), w')"
    and c1: "cl_cgi_active c1" "cl_cgi_stdin_fd c1 = wi" "\<not> cl_stdin_eof c1"
      "out wi w' @ cgi_stdin_queue c1 = out wi w1 @ concat (map snd cs)"
    using chunked_script_started [OF assms(1-6), of mx ?s ?c route net out w1 ri wi w2 ro wo w3 pid w4 os gw key idx]
      assms(7-11,25,27-29) c by auto
  let ?s1 = "put_client key c1 (register_cgi ro False c1 ?s)"
  obtain ps where ps: "sv_poll (register_cgi ro False c1 ?s) = sv_poll s @ ps" "\<forall>x \<in> set ps. pf_revents x = {}"
    using register_cgi_poll [of ro False c1 ?s] by auto
  define s2 where "s2 = ?s1\<lparr>sv_poll := (sv_poll ?s1)[idx := (sv_poll ?s1 ! idx)\<lparr>pf_revents := {}\<rparr>]\<rparr>"
  have turn: "scan_turn os net gw idx s w = Some (idx + 1, s2, w')"
    unfolding s2_def
    by (rule read_turn [OF assms(16-21,23,15) _ h])
       (use assms(16,26) fd in \<open>simp_all add: ps(1) nth_append\<close>)
  have get: "get_client s2 key = Some c1" by (simp add: s2_def get_put_client)
  have "server_inv s2"
    using scan_turn_ok [OF wiredD(1) [OF assms(25)] assms(22) turn] by simp
  moreover have "holds_open key wi s2"
    unfolding holds_open_def get keeps_open_def
    using assms(24) c1(1-3) register_cgi_inputs [of ro False c1 ?s _ key] by (auto simp: s2_def)
  moreover have "unhung wi (sv_poll s2)"
  proof -
    have old: "pf_fd x \<noteq> wi" if "x \<in> set (sv_poll s)" for x using assms(30) that by blast
    have "unhung wi (sv_poll ?s1)"
      using old ps(2) by (auto simp: unhung_def hangup_def ps(1))
    then show ?thesis
      by (auto simp: s2_def unhung_def hangup_def dest!: subsetD [OF set_update_subset_insert])
  qed
  ultimately have start: "stays_open key wi (Scanning (idx + 1), s2, w')" by (simp add: stays_open_def)
  have later: "cl_cgi_stdin_fd c2 = wi \<and> \<not> cl_stdin_eof c2"
    if "net_ok net' \<and> silent net' key \<and> never_hangs_up net' wi \<and>
       (server_step os net' gw)\<^sup>*\<^sup>* (Scanning (idx + 1), s2, w') (ph, s3, w3) \<and>
       get_client s3 key = Some c2 \<and> cl_cgi_active c2" for net' ph s3 w3 c2
    using run_stays_open [of os net' gw "(Scanning (idx + 1), s2, w')" "(ph, s3, w3)" key wi] start that
      holds_open_client [of key wi s3 c2]
    by (auto simp: stays_open_def keeps_open_def)
  show ?thesis using turn get c1(1,4) later by blast
qed

text \<open>A client whose entry is readable, and a kernel that is silent from then on.\<close>

definition readable_client :: server where
  "readable_client =
     (let s = demo_client script_conf
      in s\<lparr>sv_poll := (sv_poll s)[1 := (sv_poll s ! 1)\<lparr>pf_revents := {POLLIN}\<rparr>]\<rparr>)"

definition chunked_upload :: string where
  "chunked_upload = head_text ''POST'' ''/x.py'' ''HTTP/1.1'' sample_chunked_fields @ chunked_text [([], ''abc'')] []"

definition waiting_net :: "feed net" where
  "waiting_net = feed_net\<lparr>nt_read := \<lambda>_ w. (Again, w),
     nt_poll := \<lambda>ps w. (Polled (map (\<lambda>_. {POLLIN, POLLOUT}) ps), w)\<rparr>"

lemma readable_client_inv: "server_inv readable_client"
proof -
  obtain s w where n: "new_server_object feed_net [script_conf] (new_feed [] [] []) = (s, w)" by (metis surj_pair)
  then have "demo_server script_conf = s" by (simp add: demo_server_def)
  with new_server_object_ok [OF n] have "server_inv (demo_client script_conf)"
    by (simp add: demo_client_def inv_add)
  then show ?thesis by (simp add: readable_client_def Let_def)
qed

lemma waiting_net_silent: "net_ok waiting_net \<and> silent waiting_net k \<and> never_hangs_up waiting_net fd"
proof (intro conjI)
  show "net_ok waiting_net" using feed_net_ok by (simp add: net_ok_def waiting_net_def)
  show "silent waiting_net k" by (simp add: silent_def waiting_net_def)
  show "never_hangs_up waiting_net fd"
    by (auto simp: never_hangs_up_def waiting_net_def set_revents_def hangup_def)
qed

theorem chunked_script_input_stays_open_witness:
  "\<exists>s1 w' c1. scan_turn feed_sys feed_net silent_gateway 1 readable_client
       (new_feed [] [Got (hd chunked_upload) (tl chunked_upload)] []) = Some (1 + 1, s1, w') \<and>
     get_client s1 9 = Some c1 \<and> cl_cgi_active c1 \<and> cl_cgi_stdin_fd c1 = 4 \<and> \<not> cl_stdin_eof c1"
proof -
  let ?w = "new_feed [] [Got (hd chunked_upload) (tl chunked_upload)] []"
  let ?n = "\<lambda>fd. (new_feed [] [] [])\<lparr>fd_next := fd\<rparr>"
  let ?route = "new_route\<lparr>rc_cgi_extension := ''.py''\<rparr>"
  have up: "hd chunked_upload # tl chunked_upload =
      head_text ''POST'' ''/x.py'' ''HTTP/1.1'' sample_chunked_fields @ chunked_text [([], ''abc'')] []"
    by code_simp
  have a: "wf_head ''POST'' ''/x.py'' ''HTTP/1.1'' sample_chunked_fields"
    "map_of (header_map sample_chunked_fields) ''transfer-encoding'' = Some ''Chunked''" "te_chunked ''Chunked''"
    "wf_trailers []"
    "1048576 = peek_max_body (hd chunked_upload # tl chunked_upload) (conf_of readable_client (new_client 9 0 0))"
    "match_route (strip_query_string ''/x.py'') (conf_of readable_client (new_client 9 0 0)) = Some ?route"
    "cgi_route ?route (strip_query_string ''/x.py'')" "method_allowed ?route ''POST''"
    "cl_request (new_client 9 0 0) = new_request" "\<not> cl_request_started (new_client 9 0 0)"
    "cl_buffer (new_client 9 0 0) = []" "\<not> cl_cgi_active (new_client 9 0 0)"
    by code_simp+
  have b: "1 < length (sv_poll readable_client)" "pf_fd (sv_poll readable_client ! 1) = 9"
    "pf_revents (sv_poll readable_client ! 1) = {POLLIN}" "\<not> isListeningSocket readable_client 9"
    "\<not> isCgiFd readable_client 9" "\<not> isCgiStdinFd readable_client 9"
    "get_client readable_client 9 = Some (new_client 9 0 0)" "sv_cgi_in readable_client = []"
    "nt_read feed_net 9 ?w = (Got (hd chunked_upload) (tl chunked_upload), new_feed [] [] [])"
    "nt_pipe feed_net (new_feed [] [] []) = (Some (3, 4), ?n 5)" "nt_pipe feed_net (?n 5) = (Some (5, 6), ?n 7)"
    "4 \<notin> pf_fd ` set (sv_poll readable_client)"
    by code_simp+
  have chunk: "list_all wf_chunk [([], ''abc'')]" by simp
  have fork: "\<forall>l. nt_fork feed_net l (?n 7) = (Some 77, ?n 7)" by (simp add: feed_net_def)
  have inputs: "\<forall>fd. map_of (sv_cgi_in readable_client) fd \<noteq> Some 9" using b(8) by simp
  have small: "(1048576 :: size_t) = 0 \<or> length (concat (map snd [([] :: string, ''abc'')])) \<le> unat (1048576 :: size_t)"
    by simp
  from chunked_script_input_stays_open [OF a(1-3) chunk a(4) up a(5) small a(6-12) b(1-6) readable_client_inv
      b(7) inputs feed_wired b(9-11) fork b(12), of feed_sys silent_gateway]
  obtain s1 w' c1 where r: "scan_turn feed_sys feed_net silent_gateway 1 readable_client ?w = Some (1 + 1, s1, w')"
      "get_client s1 9 = Some c1" "cl_cgi_active c1"
    and later: "\<forall>net' ph s2 w2 c2. net_ok net' \<and> silent net' 9 \<and> never_hangs_up net' 4 \<and>
       (server_step feed_sys net' silent_gateway)\<^sup>*\<^sup>* (Scanning (1 + 1), s1, w') (ph, s2, w2) \<and>
       get_client s2 9 = Some c2 \<and> cl_cgi_active c2 \<longrightarrow>
       cl_cgi_stdin_fd c2 = 4 \<and> \<not> cl_stdin_eof c2" by blast
  have "cl_cgi_stdin_fd c1 = 4 \<and> \<not> cl_stdin_eof c1"
    using later [rule_format, of waiting_net "Scanning (1 + 1)" s1 w' c1] waiting_net_silent [of 9 4] r(2,3)
    by blast
  with r show ?thesis by blast
qed

end
