(* ===== verification/ServerTimeouts.thy ===== *)
theory ServerTimeouts
  imports ServerDemo
begin

text \<open>The timeout scan of \<open>Server::start\<close>: which clients it removes.\<close>

definition idle :: "int \<Rightarrow> client \<Rightarrow> bool" where
  "idle now c \<longleftrightarrow> CLIENT_TIMEOUT < now - cl_last_activity c"

definition idle_without_script :: "int \<Rightarrow> server \<Rightarrow> bool" where
  "idle_without_script now s \<longleftrightarrow>
     (\<forall>k c. get_client s k = Some c \<and> idle now c \<longrightarrow> cl_cgi_stdin_fd c = - 1 \<and> cl_cgi_stdout_fd c = - 1)"

lemma expired_idle:
  "expired now s i \<longleftrightarrow> \<not> isListeningSocket s (pf_fd (sv_poll s ! i)) \<and>
     (\<exists>c. get_client s (pf_fd (sv_poll s ! i)) = Some c \<and> idle now c)"
  by (auto simp: expired_def idle_def Let_def split: option.split)

lemma remove_client_idle:
  assumes "remove_client net i s w = Some (s', w')" and "expired now s i" and "idle_without_script now s"
  shows "sv_poll s' = erase_at i (sv_poll s)" and "idle_without_script now s'"
proof -
  show "sv_poll s' = erase_at i (sv_poll s)"
    by (rule remove_client_poll [OF assms(1)])
       (use assms(2,3) in \<open>auto simp: expired_idle idle_without_script_def\<close>)
  show "idle_without_script now s'"
    using remove_client_others [OF assms(1)] assms(3) by (auto simp: idle_without_script_def)
qed

text \<open>What the scan from index \<open>i\<close> on does.\<close>

lemma timeout_scan_keeps:
  "timeout_scan net now i s w = Some r \<Longrightarrow>
     sv_sockets (fst r) = sv_sockets s \<and>
     (\<forall>k c. get_client (fst r) k = Some c \<longrightarrow> get_client s k = Some c) \<and>
     (\<forall>k c. get_client s k = Some c \<and> now - cl_last_activity c \<le> CLIENT_TIMEOUT \<longrightarrow>
        get_client (fst r) k = Some c)"
proof (induction rule: timeout_rule)
  case (drop i s w s1 w1 r)
  obtain c where c: "get_client s (pf_fd (sv_poll s ! i)) = Some c" "CLIENT_TIMEOUT < now - cl_last_activity c"
    using drop(2) by (auto simp: expired_def Let_def split: option.split_asm)
  have g: "get_client s1 k = (if k = pf_fd (sv_poll s ! i) then None else get_client s k)" for k
    using remove_client_others [OF drop(3)] by blast
  have "sv_sockets s1 = sv_sockets s" using remove_client_others [OF drop(3)] by blast
  then have "sv_sockets (fst r) = sv_sockets s" using drop(5) by simp
  moreover have "get_client s k = Some d" if "get_client (fst r) k = Some d" for k d
  proof -
    from that drop(5) have "get_client s1 k = Some d" by blast
    then show ?thesis by (simp add: g split: if_split_asm)
  qed
  moreover have "get_client (fst r) k = Some d"
    if "get_client s k = Some d" "now - cl_last_activity d \<le> CLIENT_TIMEOUT" for k d
  proof -
    have "k \<noteq> pf_fd (sv_poll s ! i)" using that c by auto
    with that(1) have "get_client s1 k = Some d" by (simp add: g)
    with drop(5) that(2) show ?thesis by blast
  qed
  ultimately show ?case by blast
next
  case (keep i s w r)
  show ?case by (rule keep(4))
qed simp

lemma expired_back:
  assumes "expired now s' i" and "sv_poll s' ! i = sv_poll s ! i" and "sv_sockets s' = sv_sockets s"
    and "\<And>k c. get_client s' k = Some c \<Longrightarrow> get_client s k = Some c"
  shows "expired now s i"
proof -
  obtain c where "get_client s' (pf_fd (sv_poll s ! i)) = Some c" "CLIENT_TIMEOUT < now - cl_last_activity c"
    "\<not> isListeningSocket s' (pf_fd (sv_poll s ! i))"
    using assms(1,2) by (auto simp: expired_def Let_def split: option.split_asm)
  with assms(3) assms(4) [OF this(1)] show ?thesis
    by (simp add: expired_def Let_def isListeningSocket_def)
qed

lemma timeout_scan_rest:
  "timeout_scan net now i s w = Some r \<Longrightarrow> idle_without_script now s \<Longrightarrow> i \<le> length (sv_poll s) \<Longrightarrow>
     take i (sv_poll (fst r)) = take i (sv_poll s) \<and> i \<le> length (sv_poll (fst r)) \<and>
     (\<forall>j. i \<le> j \<and> j < length (sv_poll (fst r)) \<longrightarrow> \<not> expired now (fst r) j)"
proof (induction rule: timeout_rule)
  case (stop i s w)
  then show ?case by auto
next
  case (keep i s w r)
  let ?s' = "fst r"
  have IH: "take (i + 1) (sv_poll ?s') = take (i + 1) (sv_poll s)" "i + 1 \<le> length (sv_poll ?s')"
    "\<forall>j. i + 1 \<le> j \<and> j < length (sv_poll ?s') \<longrightarrow> \<not> expired now ?s' j"
    using keep by simp_all
  have nth: "sv_poll ?s' ! i = sv_poll s ! i" using IH(1) by (metis less_add_one nth_take)
  have "\<not> expired now ?s' i"
    using keep(2) expired_back [OF _ nth] timeout_scan_keeps [OF keep(3)] by blast
  then have "\<forall>j. i \<le> j \<and> j < length (sv_poll ?s') \<longrightarrow> \<not> expired now ?s' j"
    using IH(3) by (metis Suc_eq_plus1 Suc_leI le_neq_implies_less)
  moreover have "take i (sv_poll ?s') = take i (sv_poll s)"
    using arg_cong [OF IH(1), of "take i"] by simp
  ultimately show ?case using IH(2) by simp
next
  case (drop i s w s1 w1 r)
  note rm = remove_client_idle [OF drop(3,2,6)]
  have "take i (sv_poll s1) = take i (sv_poll s)" "i \<le> length (sv_poll s1)"
    using rm drop(1) by (simp_all add: erase_at_def)
  with drop(5) rm show ?case by simp
qed

text \<open>An entry leaves the vector only with its client.\<close>

lemma timeout_scan_entries:
  "timeout_scan net now i s w = Some r \<Longrightarrow> idle_without_script now s \<Longrightarrow>
     \<forall>p \<in> set (sv_poll s). p \<in> set (sv_poll (fst r)) \<or> get_client (fst r) (pf_fd p) = None"
proof (induction rule: timeout_rule)
  case (drop i s w s1 w1 r)
  note rm = remove_client_idle [OF drop(3,2,6)]
  have gone: "get_client (fst r) (pf_fd (sv_poll s ! i)) = None"
  proof (rule ccontr)
    assume "get_client (fst r) (pf_fd (sv_poll s ! i)) \<noteq> None"
    then obtain c where "get_client (fst r) (pf_fd (sv_poll s ! i)) = Some c" by blast
    with timeout_scan_keeps [OF drop(4)] have "get_client s1 (pf_fd (sv_poll s ! i)) = Some c" by blast
    then show False using remove_client_others [OF drop(3)] by simp
  qed
  have split: "p = sv_poll s ! i \<or> p \<in> set (sv_poll s1)" if "p \<in> set (sv_poll s)" for p
  proof -
    have "sv_poll s = take i (sv_poll s) @ sv_poll s ! i # drop (Suc i) (sv_poll s)"
      using drop(1) by (rule id_take_nth_drop)
    then have "set (sv_poll s) = insert (sv_poll s ! i) (set (sv_poll s1))"
      unfolding rm(1) erase_at_def by (metis Un_insert_right list.simps(15) set_append)
    with that show ?thesis by blast
  qed
  show ?case
  proof
    fix p
    assume "p \<in> set (sv_poll s)"
    from split [OF this] show "p \<in> set (sv_poll (fst r)) \<or> get_client (fst r) (pf_fd p) = None"
      using drop(5) [OF rm(2)] gone by (elim disjE) simp_all
  qed
next
  case (keep i s w r)
  show ?case by (rule keep(4) [OF keep(5)])
qed simp

text \<open>
  C13. The timeout scan never removes an active client and never invents or changes one: a client that
  was active in the last 120 seconds is there unchanged behind the scan, and whatever is there behind it
  was there before. Where no idle client has a script running, the scan is exact: of the clients with
  an entry in the \<open>poll\<close> vector, exactly those idle for longer are removed, whatever scripts the active
  clients run. (Removing an idle client that has a script also erases the script's entries in front of
  the index, so the scan may then pass over a client until the next round.)
\<close>

theorem timeouts_exact:
  assumes "timeout_scan net now 0 s w = Some (s', w')"
  shows "(\<forall>k c. get_client s' k = Some c \<longrightarrow> get_client s k = Some c) \<and>
    (\<forall>k c. get_client s k = Some c \<and> \<not> idle now c \<longrightarrow> get_client s' k = Some c) \<and>
    (idle_without_script now s \<longrightarrow>
       (\<forall>p \<in> set (sv_poll s). \<forall>c. get_client s (pf_fd p) = Some c \<and> \<not> isListeningSocket s (pf_fd p) \<longrightarrow>
          (get_client s' (pf_fd p) = None \<longleftrightarrow> idle now c)))"
proof -
  note keeps = timeout_scan_keeps [OF assms, unfolded fst_conv]
  have gone: "get_client s' (pf_fd p) = None"
    if "idle_without_script now s" "p \<in> set (sv_poll s)" "get_client s (pf_fd p) = Some c"
      "\<not> isListeningSocket s (pf_fd p)" "idle now c" for p c
  proof (rule ccontr)
    assume n: "get_client s' (pf_fd p) \<noteq> None"
    with timeout_scan_entries [OF assms that(1)] that(2) have "p \<in> set (sv_poll s')" by auto
    then obtain j where j: "j < length (sv_poll s')" "p = sv_poll s' ! j" by (metis in_set_conv_nth)
    then have "\<not> expired now s' j" using timeout_scan_rest [OF assms that(1)] by simp
    moreover from n obtain d where d: "get_client s' (pf_fd p) = Some d" by blast
    with keeps have "get_client s (pf_fd p) = Some d" by blast
    with d that(3) have "get_client s' (pf_fd p) = Some c" by simp
    moreover have "\<not> isListeningSocket s' (pf_fd p)"
      using that(4) conjunct1 [OF keeps] by (simp add: isListeningSocket_def)
    ultimately show False using that(5) j(2) by (auto simp: expired_idle)
  qed
  have stays: "get_client s' k = Some c" if "get_client s k = Some c" "\<not> idle now c" for k c
  proof -
    have "now - cl_last_activity c \<le> CLIENT_TIMEOUT" using that(2) by (simp add: idle_def)
    with timeout_scan_keeps [OF assms] that(1) show ?thesis unfolding fst_conv by blast
  qed
  show ?thesis
  proof (intro conjI allI ballI impI)
    fix k c
    assume "get_client s' k = Some c"
    with timeout_scan_keeps [OF assms] show "get_client s k = Some c" unfolding fst_conv by blast
  next
    fix k c
    assume "get_client s k = Some c \<and> \<not> idle now c"
    then show "get_client s' k = Some c" using stays by blast
  next
    fix p c
    assume "idle_without_script now s" "p \<in> set (sv_poll s)"
      "get_client s (pf_fd p) = Some c \<and> \<not> isListeningSocket s (pf_fd p)"
    with gone [of p c] stays [of "pf_fd p" c] show "get_client s' (pf_fd p) = None \<longleftrightarrow> idle now c"
      by (cases "idle now c") simp_all
  qed
qed

theorem timeouts_exact_witness:
  "\<exists>s'. timeout_scan feed_net 121 0 (add_client 10 0 60 (demo_client new_server)) (new_feed [] [] []) =
      Some (s', (new_feed [] [] [])\<lparr>fd_closed := [9]\<rparr>) \<and>
    get_client s' 10 = Some (new_client 10 0 60)"
proof -
  let ?s = "add_client 10 0 60 (demo_client new_server)"
  let ?w = "new_feed [] [] []"
  have "case remove_client feed_net 1 ?s ?w of None \<Rightarrow> False
      | Some (s, w) \<Rightarrow> w = ?w\<lparr>fd_closed := [9]\<rparr> \<and> length (sv_poll s) = 2 \<and> \<not> expired 121 s 1" by code_simp
  then obtain s1 where 1: "remove_client feed_net 1 ?s ?w = Some (s1, ?w\<lparr>fd_closed := [9]\<rparr>)"
    "length (sv_poll s1) = 2" "\<not> expired 121 s1 1" by (auto split: option.split_asm)
  have 0: "length (sv_poll ?s) = 3" "\<not> expired 121 ?s 0" "expired 121 ?s 1" by code_simp+
  have t: "timeout_scan feed_net 121 0 ?s ?w = Some (s1, ?w\<lparr>fd_closed := [9]\<rparr>)"
    using 0 1 by (simp add: timeout_scan_step [of _ _ 0 ?s] timeout_scan_step [of _ _ "Suc 0" ?s]
        timeout_scan_step [of _ _ "Suc 0" s1] timeout_scan_step [of _ _ "Suc (Suc 0)" s1])
  have "get_client ?s 10 = Some (new_client 10 0 60)" by code_simp
  moreover have "\<forall>k c. get_client ?s k = Some c \<and> \<not> idle 121 c \<longrightarrow> get_client s1 k = Some c"
    using timeouts_exact [OF t] by (elim conjE) assumption
  moreover have "\<not> idle 121 (new_client 10 0 60)" by (simp add: new_client_def idle_def)
  ultimately have "get_client s1 10 = Some (new_client 10 0 60)" by blast
  with t show ?thesis by blast
qed

end
