(* ===== verification/Startup.thy ===== *)
theory Startup
  imports ServerDemo ConfigProps "HOL-Library.Multiset"
begin

text \<open>
  Start-up of the program: \<open>init_args\<close> and \<open>init_config\<close> of \<open>src/src/init.cpp\<close> and \<open>main\<close> of
  \<open>src/src/main.cpp\<close>, which runs the configuration parser, the constructor of the server, its loop and
  its destructor.
\<close>

section \<open>The program\<close>

text \<open>\<open>argv\<close> with the program's name; \<open>None\<close> where the usage message is printed.\<close>

definition init_args :: "string list \<Rightarrow> string option" where
  "init_args argv =
     (if length argv \<le> 1 then Some ''default.conf''
      else if length argv = 2 then Some (argv ! 1)
      else None)"

definition init_config :: "'w sys \<Rightarrow> 'w \<Rightarrow> string \<Rightarrow> parse_outcome" where
  "init_config os w config_path = parse_config os w config_path new_config"

datatype exit_status = EXIT_SUCCESS | EXIT_FAILURE

text \<open>\<open>None\<close> where the behaviour is undefined or the program does not end.\<close>

definition main_program ::
  "'w sys \<Rightarrow> 'w net \<Rightarrow> 'w gateway \<Rightarrow> string list \<Rightarrow> 'w \<Rightarrow> (exit_status \<times> 'w) option" where
  "main_program os net gw argv w =
     (case init_args argv of
        None \<Rightarrow> Some (EXIT_FAILURE, w)
      | Some config_path \<Rightarrow>
         (case init_config os w config_path of
            Undefined \<Rightarrow> None
          | Returned False config \<Rightarrow> Some (EXIT_FAILURE, w)
          | Returned True config \<Rightarrow>
              let (server, w) = new_server_object net (cf_servers config) w in
              if \<not> sv_init_ok server then Some (EXIT_FAILURE, destroy_server net server w)
              else map_option (\<lambda>(server, w). (EXIT_SUCCESS, destroy_server net server w))
                     (start_server os net gw server w)))"

section \<open>Properties\<close>

lemma open_sockets_result:
  "open_sockets net i confs s w = (s', w') \<Longrightarrow> sv_init_ok s \<Longrightarrow>
     map ss_index (sv_sockets s) = [0..<i] \<Longrightarrow>
     sv_poll s = map (\<lambda>x. poll_entry (ss_fd x) POLLIN) (sv_sockets s) \<Longrightarrow>
     sv_clients s' = sv_clients s \<and> sv_configs s' = sv_configs s \<and>
     (if sv_init_ok s'
      then map ss_port (sv_sockets s') = map ss_port (sv_sockets s) @ map sc_port confs \<and>
        map ss_index (sv_sockets s') = [0..<i + length confs] \<and>
        sv_poll s' = map (\<lambda>x. poll_entry (ss_fd x) POLLIN) (sv_sockets s')
      else sv_sockets s' = [] \<and> sv_poll s' = [])"
proof (induction confs arbitrary: i s w)
  case (Cons conf confs)
  let ?s = "\<lambda>fd. s\<lparr>sv_sockets := sv_sockets s @ [\<lparr>ss_fd = fd, ss_port = sc_port conf, ss_index = i\<rparr>],
                  sv_poll := sv_poll s @ [poll_entry fd POLLIN]\<rparr>"
  from Cons.prems(1) consider "s' = s\<lparr>sv_sockets := [], sv_poll := [], sv_init_ok := False\<rparr>"
    | fd w1 where "open_sockets net (Suc i) confs (?s fd) w1 = (s', w')"
    by (auto simp: Let_def cleanup_sockets_def split: option.split_asm prod.split_asm bool.split_asm)
  then show ?case
  proof cases
    case (2 fd w1)
    from Cons.IH [OF this] Cons.prems(2-4) show ?thesis by simp
  qed simp
qed simp

subsection \<open>The calls of the constructor\<close>

text \<open>
  A kernel that writes down the calls on sockets it is asked for, with their arguments and results,
  and otherwise is the kernel it is made from.
\<close>

datatype socket_call =
  Socket_Call "int option" | Bind_Call int int bool | Listen_Call int bool | Close_Call int

definition unlogged :: "('w \<Rightarrow> 'r \<times> 'w) \<Rightarrow> 'w \<times> socket_call list \<Rightarrow> 'r \<times> 'w \<times> socket_call list" where
  "unlogged f x = (let (r, w) = f (fst x) in (r, w, snd x))"

definition logged ::
  "('w \<Rightarrow> 'r \<times> 'w) \<Rightarrow> ('r \<Rightarrow> socket_call) \<Rightarrow> 'w \<times> socket_call list \<Rightarrow> 'r \<times> 'w \<times> socket_call list" where
  "logged f e x = (let (r, w) = f (fst x) in (r, w, snd x @ [e r]))"

definition log_net :: "'w net \<Rightarrow> ('w \<times> socket_call list) net" where
  "log_net net =
     \<lparr>nt_now = (\<lambda>x. nt_now net (fst x)), nt_looping = (\<lambda>x. nt_looping net (fst x)),
      nt_socket = logged (nt_socket net) Socket_Call,
      nt_bind = (\<lambda>fd port. logged (nt_bind net fd port) (Bind_Call fd port)),
      nt_listen = (\<lambda>fd. logged (nt_listen net fd) (Listen_Call fd)),
      nt_accept = (\<lambda>fd. unlogged (nt_accept net fd)),
      nt_poll = (\<lambda>ps. unlogged (nt_poll net ps)),
      nt_read = (\<lambda>fd. unlogged (nt_read net fd)),
      nt_write = (\<lambda>fd b. unlogged (nt_write net fd b)),
      nt_send = (\<lambda>fd b. unlogged (nt_send net fd b)),
      nt_close = (\<lambda>fd x. (nt_close net fd (fst x), snd x @ [Close_Call fd])),
      nt_pipe = unlogged (nt_pipe net),
      nt_fork = (\<lambda>l. unlogged (nt_fork net l)),
      nt_wait = (\<lambda>pid x. (nt_wait net pid (fst x), snd x))\<rparr>"

text \<open>The descriptors a log opens and closes, and the three calls that make a listening socket.\<close>

definition opened_fds :: "socket_call list \<Rightarrow> int list" where
  "opened_fds log = concat (map (\<lambda>e. case e of Socket_Call (Some fd) \<Rightarrow> [fd] | _ \<Rightarrow> []) log)"

definition closed_fds :: "socket_call list \<Rightarrow> int list" where
  "closed_fds log = concat (map (\<lambda>e. case e of Close_Call fd \<Rightarrow> [fd] | _ \<Rightarrow> []) log)"

definition listening_calls :: "server_socket \<Rightarrow> socket_call list" where
  "listening_calls x =
     [Socket_Call (Some (ss_fd x)), Bind_Call (ss_fd x) (ss_port x) True, Listen_Call (ss_fd x) True]"

lemma log_net_simps:
  "nt_socket (log_net net) (w, l) = (let (r, w) = nt_socket net w in (r, w, l @ [Socket_Call r]))"
  "nt_bind (log_net net) fd port (w, l) = (let (r, w) = nt_bind net fd port w in (r, w, l @ [Bind_Call fd port r]))"
  "nt_listen (log_net net) fd (w, l) = (let (r, w) = nt_listen net fd w in (r, w, l @ [Listen_Call fd r]))"
  "nt_close (log_net net) fd (w, l) = (nt_close net fd w, l @ [Close_Call fd])"
  by (simp_all add: log_net_def logged_def)

lemma close_all_log: "close_all (log_net net) fds (w, l) = (close_all net fds w, l @ map Close_Call fds)"
  by (induction fds arbitrary: w l) (simp_all add: close_all_def log_net_simps)

lemma fds_simps [simp]:
  "opened_fds [] = []" "opened_fds (e # l) = (case e of Socket_Call (Some fd) \<Rightarrow> [fd] | _ \<Rightarrow> []) @ opened_fds l"
  "closed_fds [] = []" "closed_fds (e # l) = (case e of Close_Call fd \<Rightarrow> [fd] | _ \<Rightarrow> []) @ closed_fds l"
  "opened_fds (map Close_Call fds) = []" "closed_fds (map Close_Call fds) = fds"
  by (simp_all add: opened_fds_def closed_fds_def comp_def)

lemma cleanup_log:
  assumes "\<forall>x \<in> set (sv_sockets s). ss_fd x \<noteq> - 1"
  shows "cleanup_sockets (log_net net) s (w, l) =
    (fst (cleanup_sockets net s w), snd (cleanup_sockets net s w), l @ map Close_Call (map ss_fd (sv_sockets s)))"
proof -
  have "filter (\<lambda>fd. fd \<noteq> - 1) (map ss_fd (sv_sockets s)) = map ss_fd (sv_sockets s)"
    using assms by (auto intro: filter_True)
  then show ?thesis by (simp add: cleanup_sockets_def close_all_log)
qed

text \<open>How a constructor loop's log grows, by how it ends.\<close>

definition constructor_log :: "server \<Rightarrow> server \<Rightarrow> socket_call list \<Rightarrow> bool" where
  "constructor_log s s' l \<longleftrightarrow>
     (if sv_init_ok s'
      then \<exists>new. sv_sockets s' = sv_sockets s @ new \<and> l = concat (map listening_calls new)
      else mset (closed_fds l) = mset (opened_fds l) + mset (map ss_fd (sv_sockets s)))"

lemma open_sockets_log:
  assumes never: "\<forall>w. fst (nt_socket net w) \<noteq> Some (- 1)"
  shows "open_sockets net i confs s w = (s', w') \<Longrightarrow> sv_init_ok s \<Longrightarrow>
     \<forall>x \<in> set (sv_sockets s). ss_fd x \<noteq> - 1 \<Longrightarrow>
     \<exists>l. open_sockets (log_net net) i confs s (w, l0) = (s', w', l0 @ l) \<and> constructor_log s s' l"
proof (induction confs arbitrary: i s w l0)
  case Nil
  then show ?case by (simp add: constructor_log_def)
next
  case (Cons conf confs)
  note clean = cleanup_log [OF Cons.prems(3)]
  note unfold = open_sockets.simps(2) Let_def log_net_simps clean
  have failed: "\<not> sv_init_ok s' \<and> sv_sockets s' = []" if "s' = (fst (cleanup_sockets net s w0))\<lparr>sv_init_ok := False\<rparr>" for w0
    using that by (simp add: cleanup_sockets_def)
  obtain fd_opt w1 where so: "nt_socket net w = (fd_opt, w1)" by (metis surj_pair)
  show ?case
  proof (cases fd_opt)
    case None
    then have "s' = (fst (cleanup_sockets net s w1))\<lparr>sv_init_ok := False\<rparr>" "w' = snd (cleanup_sockets net s w1)"
      using Cons.prems(1) so by (auto simp: Let_def split: prod.split_asm)
    with failed [OF this(1)] None so show ?thesis
      by (intro exI [of _ "Socket_Call None # map Close_Call (map ss_fd (sv_sockets s))"])
         (simp add: unfold constructor_log_def del: map_map)
  next
    case (Some fd)
    obtain b w2 where bi: "nt_bind net fd (sc_port conf) w1 = (b, w2)" by (metis surj_pair)
    obtain li w3 where ls: "nt_listen net fd w2 = (li, w3)" by (metis surj_pair)
    consider (bind) "\<not> b" | (listen) "b" "\<not> li" | (next_socket) "b" "li" by blast
    then show ?thesis
    proof cases
      case bind
      let ?w = "nt_close net fd w2"
      have "s' = (fst (cleanup_sockets net s ?w))\<lparr>sv_init_ok := False\<rparr>" "w' = snd (cleanup_sockets net s ?w)"
        using Cons.prems(1) so Some bi bind by (auto simp: Let_def split: prod.split_asm)
      with failed [OF this(1)] so Some bi bind show ?thesis
        by (intro exI [of _ "Socket_Call (Some fd) # Bind_Call fd (sc_port conf) False # Close_Call fd #
              map Close_Call (map ss_fd (sv_sockets s))"]) (simp add: unfold constructor_log_def del: map_map)
    next
      case listen
      let ?w = "nt_close net fd w3"
      have "s' = (fst (cleanup_sockets net s ?w))\<lparr>sv_init_ok := False\<rparr>" "w' = snd (cleanup_sockets net s ?w)"
        using Cons.prems(1) so Some bi ls listen by (auto simp: Let_def split: prod.split_asm)
      with failed [OF this(1)] so Some bi ls listen show ?thesis
        by (intro exI [of _ "Socket_Call (Some fd) # Bind_Call fd (sc_port conf) True # Listen_Call fd False #
              Close_Call fd # map Close_Call (map ss_fd (sv_sockets s))"])
           (simp add: unfold constructor_log_def del: map_map)
    next
      case next_socket
      let ?x = "\<lparr>ss_fd = fd, ss_port = sc_port conf, ss_index = i\<rparr>"
      let ?s = "s\<lparr>sv_sockets := sv_sockets s @ [?x], sv_poll := sv_poll s @ [poll_entry fd POLLIN]\<rparr>"
      have run: "open_sockets net (Suc i) confs ?s w3 = (s', w')"
        using Cons.prems(1) so Some bi ls next_socket by simp
      have fd: "\<forall>x \<in> set (sv_sockets ?s). ss_fd x \<noteq> - 1"
        using Cons.prems(3) never [rule_format, of w] so Some by auto
      from Cons.IH [OF run _ fd, of "l0 @ listening_calls ?x"] Cons.prems(2) obtain l where
        l: "open_sockets (log_net net) (Suc i) confs ?s (w3, l0 @ listening_calls ?x) =
          (s', w', (l0 @ listening_calls ?x) @ l)" "constructor_log ?s s' l" by auto
      have "open_sockets (log_net net) i (conf # confs) s (w, l0) = (s', w', l0 @ listening_calls ?x @ l)"
        using l(1) so Some bi ls next_socket by (simp add: unfold listening_calls_def)
      moreover have "constructor_log s s' (listening_calls ?x @ l)"
        using l(2) by (auto simp: constructor_log_def listening_calls_def)
      ultimately show ?thesis by blast
    qed
  qed
qed

text \<open>
  C18. The server starts with all of its sockets or with none, and what it tells the kernel is just
  that. A constructor that reports success has made exactly three calls for every configuration, in
  order: \<open>socket\<close>, then \<open>bind\<close> of that descriptor to the configuration's port, then \<open>listen\<close> on it,
  all successful; the socket list has these descriptors with the ports and numbers of the
  configurations, and a \<open>poll\<close> entry for each. One that reports a failure has neither sockets nor
  entries left, and has closed every descriptor that \<open>socket\<close> gave it, each once. (\<open>socket\<close> is assumed
  not to return -1 for success.)
\<close>

theorem all_sockets_or_none:
  assumes "new_server_object net configs w = (s, w')" and "\<forall>w. fst (nt_socket net w) \<noteq> Some (- 1)"
  shows "sv_clients s = [] \<and> sv_configs s = configs \<and>
    (\<exists>log. new_server_object (log_net net) configs (w, []) = (s, w', log) \<and>
      (if sv_init_ok s
       then log = concat (map listening_calls (sv_sockets s)) \<and>
         map ss_port (sv_sockets s) = map sc_port configs \<and>
         map ss_index (sv_sockets s) = [0..<length configs] \<and>
         sv_poll s = map (\<lambda>x. poll_entry (ss_fd x) POLLIN) (sv_sockets s)
       else sv_sockets s = [] \<and> sv_poll s = [] \<and> mset (closed_fds log) = mset (opened_fds log)))"
proof -
  have run: "open_sockets net 0 configs (empty_server configs) w = (s, w')"
    using assms(1) by (simp add: new_server_object_def)
  from open_sockets_log [OF assms(2) this, of "[]"] obtain l where
    "open_sockets (log_net net) 0 configs (empty_server configs) (w, []) = (s, w', l)"
    "constructor_log (empty_server configs) s l" by (auto simp: empty_server_def)
  with open_sockets_result [OF run] show ?thesis
    by (auto simp: new_server_object_def constructor_log_def empty_server_def)
qed

definition steady_net :: "feed net" where
  "steady_net = feed_net\<lparr>nt_socket := \<lambda>w. (Some \<bar>fd_next w\<bar>, w\<lparr>fd_next := \<bar>fd_next w\<bar> + 1\<rparr>),
     nt_listen := \<lambda>fd w. (fd \<noteq> 5, w)\<rparr>"

text \<open>Two descriptors that both listen, and three of which the last does not.\<close>

theorem all_sockets_or_none_witness:
  "(\<exists>s w' log. new_server_object (log_net steady_net) [new_server, new_server\<lparr>sc_port := 8081\<rparr>]
       (new_feed [] [] [], []) = (s, w', log) \<and>
     log = concat (map listening_calls (sv_sockets s)) \<and> map ss_port (sv_sockets s) = [8080, 8081]) \<and>
   (\<exists>s w' log. new_server_object (log_net steady_net) [new_server, new_server, new_server]
       (new_feed [] [] [], []) = (s, w', log) \<and>
     sv_sockets s = [] \<and> mset (closed_fds log) = mset (opened_fds log))"
proof -
  have never: "\<forall>w. fst (nt_socket steady_net w) \<noteq> Some (- 1)"
  proof
    fix w :: feed
    have "\<bar>fd_next w\<bar> \<noteq> - 1" using abs_ge_zero [of "fd_next w"] by linarith
    then show "fst (nt_socket steady_net w) \<noteq> Some (- 1)" by (simp add: steady_net_def)
  qed
  obtain s w where n: "new_server_object steady_net [new_server, new_server\<lparr>sc_port := 8081\<rparr>] (new_feed [] [] []) = (s, w)"
    by (metis surj_pair)
  obtain t v where m: "new_server_object steady_net [new_server, new_server, new_server] (new_feed [] [] []) = (t, v)"
    by (metis surj_pair)
  have "sv_init_ok (fst (new_server_object steady_net [new_server, new_server\<lparr>sc_port := 8081\<rparr>] (new_feed [] [] [])))"
    "\<not> sv_init_ok (fst (new_server_object steady_net [new_server, new_server, new_server] (new_feed [] [] [])))"
    "sc_port new_server = 8080" by code_simp+
  then have ok: "sv_init_ok s" "\<not> sv_init_ok t" and port: "sc_port new_server = 8080" unfolding n m by simp_all
  show ?thesis
    using all_sockets_or_none [OF n never] all_sockets_or_none [OF m never] ok port by auto
qed

lemma main_program_cases:
  assumes "main_program os net gw argv w = Some (status, w')"
  obtains "status = EXIT_FAILURE" and "w' = w"
  | path c s w1 where "status = EXIT_FAILURE" and "init_args argv = Some path"
      and "init_config os w path = Returned True c"
      and "new_server_object net (cf_servers c) w = (s, w1)" and "\<not> sv_init_ok s"
  | path c s w1 s2 w2 where "status = EXIT_SUCCESS" and "init_args argv = Some path"
      and "init_config os w path = Returned True c"
      and "new_server_object net (cf_servers c) w = (s, w1)" and "sv_init_ok s"
      and "start_loop os net gw s w1 = Some (s2, w2)" and "w' = destroy_server net s2 w2"
  using assms
  by (auto simp: main_program_def start_server_def
      split: option.split_asm parse_outcome.split_asm bool.split_asm prod.split_asm if_split_asm)

text \<open>
  C17. A successful exit means that the server ran: \<open>main\<close> returns \<open>EXIT_SUCCESS\<close> only after a
  configuration with at least one server and only valid ones was read, the constructor opened all
  sockets, and the event loop ran from there to its end; every other end is a failure, and one before
  the constructor has touched nothing.
\<close>

theorem success_means_served:
  assumes "main_program os net gw argv w = Some (EXIT_SUCCESS, w')"
  shows "\<exists>path c s w1 s2 w2. init_args argv = Some path \<and> init_config os w path = Returned True c \<and>
    cf_servers c \<noteq> [] \<and> valid_servers (cf_servers c) \<and>
    new_server_object net (cf_servers c) w = (s, w1) \<and>
    map ss_port (sv_sockets s) = map sc_port (cf_servers c) \<and>
    (server_step os net gw)\<^sup>*\<^sup>* (Polling, s, w1) (Stopped, s2, w2) \<and> w' = destroy_server net s2 w2"
  using assms
proof (cases rule: main_program_cases)
  case (3 path c s w1 s2 w2)
  have "cf_servers c \<noteq> [] \<and> valid_servers (cf_servers c)"
    using 3(3) parse_config_valid by (simp add: init_config_def)
  moreover have "map ss_port (sv_sockets s) = map sc_port (cf_servers c)"
    using open_sockets_result [OF 3(4) [unfolded new_server_object_def]] 3(5)
    by (simp add: empty_server_def)
  ultimately show ?thesis
    using 3(2-4,7) start_run [OF 3(6)]
    by (intro exI [of _ path] exI [of _ c] exI [of _ s] exI [of _ w1] exI [of _ s2] exI [of _ w2]) simp
qed simp_all

theorem success_means_served_witness:
  "\<exists>c s w1 s2 w2.
     init_config (feed_sys\<lparr>sys_read_file := \<lambda>_ _. Some sample_conf\<rparr>) (new_feed [] [] []) ''a.conf'' = Returned True c \<and>
     new_server_object feed_net (cf_servers c) (new_feed [] [] []) = (s, w1) \<and>
     map ss_port (sv_sockets s) = map sc_port (cf_servers c)"
proof -
  let ?os = "feed_sys\<lparr>sys_read_file := \<lambda>_ _. Some sample_conf\<rparr>" and ?w = "new_feed [] [] []"
  have p: "init_config ?os ?w ''a.conf'' = Returned True sample_config" by code_simp
  obtain s w1 where n: "new_server_object feed_net (cf_servers sample_config) ?w = (s, w1)" by (metis surj_pair)
  have "case new_server_object feed_net (cf_servers sample_config) ?w of (s, w1) \<Rightarrow>
      sv_init_ok s \<and> \<not> nt_looping feed_net w1" by code_simp
  then have s: "sv_init_ok s" "\<not> nt_looping feed_net w1" unfolding n prod.case by auto
  have "start_loop ?os feed_net silent_gateway s w1 = Some (s, w1)"
    using s(2) by (simp add: start_loop_step)
  then have m: "main_program ?os feed_net silent_gateway [''webserv'', ''a.conf''] ?w =
      Some (EXIT_SUCCESS, destroy_server feed_net s w1)"
    using p n s(1) by (simp add: main_program_def init_args_def start_server_def)
  from success_means_served [OF m] show ?thesis by (simp add: init_args_def) metis
qed

end
