(* ===== verification/Spec2Isabelle.thy ===== *)
theory Spec2Isabelle
  imports RequestIncremental RequestLimits HandlerWire ConnectionProps ServerScripts ServerSilent ServerTimeouts
    Startup
begin

text \<open>
  A verification library for the C++98 web server of this repository (\<open>src/src\<close>, \<open>src/inc\<close>).

  \<^bold>\<open>The program.\<close> \<open>main\<close> reads a configuration file (\<open>Config\<close>), opens one listening socket per
  \<open>server\<close> block (\<open>Server\<close>) and runs a single-threaded loop over \<open>poll\<close>. For a readable client the
  loop feeds the bytes to an incremental parser (\<open>HTTPRequest\<close>), chooses a route (\<open>match_route\<close>),
  and either answers through the request handlers (\<open>HTTPHandler\<close>, \<open>HTTPResponse\<close>) or starts a CGI
  script whose input and output it moves through byte queues of the connection (\<open>Client\<close>). \<open>CGI\<close>
  is a second, blocking executor of scripts.

  \<^bold>\<open>Theories and code.\<close>
  \<^item> \<open>Prelude\<close>, \<open>CxxNum\<close>, \<open>CxxMap\<close>: what the sources use of the C++ library: \<open>std::string\<close> searches,
    C strings, \<open>atoi\<close>, \<open>atol\<close> and number output, \<open>std::map\<close> (locale \<open>keyed_store\<close>). A \<open>size_t\<close>
    is a \<open>64 word\<close> wherever it can wrap, an index is a \<open>nat\<close>.
  \<^item> \<open>Sys\<close>: the file system calls, a record of functions over a world \<open>'w\<close>: a parameter.
  \<^item> \<open>Request\<close> (\<open>HTTPRequest.cpp\<close>), \<open>Incremental\<close> (locales for incremental parsers); \<open>Response\<close>
    (\<open>HTTPResponse.cpp\<close>); \<open>Config\<close> (\<open>Config.cpp\<close>); \<open>Paths\<close>, \<open>Handler\<close> (\<open>HTTPHandler.cpp\<close>);
    \<open>Gateway\<close> (\<open>CGI.cpp\<close>; the record \<open>gateway\<close> is a parameter: what the kernel and the script answer
    \<open>CGI::execute\<close>, which of its blocking calls return, and the files as the script leaves them);
    \<open>Routing\<close> (\<open>Server::match_route\<close>); \<open>Connection\<close> (\<open>Client.cpp\<close>) with
    \<open>ByteQueue\<close> (locale \<open>byte_queue\<close>, interpreted on both queues).
  \<^item> \<open>ServerState\<close>, \<open>ServerCgi\<close>, \<open>ServerLoop\<close> (\<open>Server.cpp\<close>): the server object, scripts in the loop,
    and the loop. The kernel is the record \<open>net\<close> of system calls over \<open>'w\<close>. A handler gives \<open>None\<close>
    where the source indexes a vector outside its bounds; one that takes an index by reference returns
    the new one. \<open>ServerStep\<close> restates \<open>start\<close> as a step relation (locale \<open>machine\<close> of \<open>Machine\<close>).
  \<^item> \<open>Startup\<close>: \<open>init.cpp\<close> and \<open>main.cpp\<close>.

  Every class is a record with the members of the source, every member function a function from the old
  object to the new one; results the source returns through references are further components. A
  function that closes descriptors or waits for a process either gets the kernel or returns them.

  \<^bold>\<open>What is shown.\<close>
  \<^item> Requests: \<open>RequestIncremental\<close> (fragmentation does not matter), \<open>RequestRoundtrip\<close> (parsing a
    reference encoding gives it back), \<open>RequestLimits\<close> (body limits, errors, state order).
  \<^item> Configuration: \<open>ConfigProps\<close> (validation decides, accepted files are valid, undefined inputs).
  \<^item> Paths and routes: \<open>Paths\<close> (the sanitiser is the lexical walk and stays inside), \<open>Routing\<close>.
  \<^item> Answers: \<open>HandlerProps\<close> (what a request can read and change), \<open>HandlerWire\<close> (framing, HEAD,
    uploads, script output: the two copies of its header loop agree), \<open>Gateway\<close> (when the executor
    returns, and that it returns the whole output).
  \<^item> Connections: \<open>ConnectionProps\<close> (queues, the chunk decoder for scripts and its take-over).
  \<^item> The loop: \<open>ServerInv\<close> and \<open>ServerHandlers\<close> (each handler keeps the invariant of the server
    object), \<open>ServerStep\<close> (the machine refines \<open>start\<close>), \<open>ServerScan\<close> (the scan ends), \<open>ServerTimeouts\<close>
    (which clients the timeout scan removes), \<open>ServerProps\<close> (the invariant in every reachable state,
    order of the bytes, streaming, delivery), \<open>ServerScripts\<close> (bodies, environment, no waiting),
    \<open>ServerSilent\<close> (the input of a script while its client is silent, along every run). \<open>Startup\<close> adds
    a kernel that logs the calls on sockets, \<open>log_net\<close>, to state what the constructor asks for. \<open>ServerDemo\<close> is a concrete
    kernel, \<open>feed_net\<close>, on which the witnesses run; it satisfies \<open>net_ok\<close> and \<open>wired\<close>, the documented
    behaviour of \<open>write\<close> and \<open>send\<close> the properties rely on.
  Several theorems state a defect of the code as it is: \<open>nul_byte_discloses_script\<close>,
  \<open>incomplete_chunk_ignores_limit\<close>, \<open>chunk_size_modulo\<close>, \<open>lone_semicolon_undefined\<close>,
  \<open>disconnect_leaves_vector\<close>, \<open>chunked_script_input_stays_open\<close>, \<open>forwarded_bytes_overtake_queue\<close>,
  \<open>execute_deadline\<close>.

  \<^bold>\<open>Termination and bounds.\<close> The loops of the parsers and decoders are total, with the unread input (and
  the state) as measure; those that read or write descriptors are bounded by \<open>FAIR_IO_LIMIT\<close> bytes per
  turn, so their measure is what is left of it; the timeout scan decreases the number of entries ahead.
  The scan over the vector and \<open>start\<close> are partial functions with no fuel; \<open>scan_ends\<close> shows that the
  former ends. The loop of the blocking executor runs on the list of the kernel's answers and ends with the
  first turn behind five seconds; \<open>execute_deadline\<close> says which blocking calls around the loop can
  still keep \<open>CGI::execute\<close> from returning. The constants (5 s, 120 s, 256 KiB, 1 MiB, 4 MiB) are the code's.

  \<^bold>\<open>Not modelled.\<close> What a child process does (its program, arguments, environment, directory and input
  are; its answers and what it leaves of the files are parameters), socket options and flags, \<open>EAGAIN\<close> of \<open>accept\<close> apart from ending its loop, messages
  on the standard streams, the debug output of \<open>STATUS_DUMP\<close> and \<open>utils_print.hpp\<close>, the installation of
  signal handlers (\<open>signals.cpp\<close>; \<open>g_looping\<close> is an answer of the kernel), and the test programs. A
  write to a regular file is taken to store all its bytes. Memory exhaustion is not an outcome.
\<close>

section \<open>Properties that span components\<close>

text \<open>What an accepted configuration's redirecting route makes of a request that reaches
  \<open>handle_request\<close>.\<close>

lemma redirect_answer:
  assumes "valid_server conf" and "match_route (target_path req) conf = Some r"
    and "rc_redirect_code r \<noteq> 0" and "\<not> slash_redirect (target_path req) conf"
  shows "\<exists>resp. answer_request os gw w req conf = Some (resp, w) \<and>
    prefix (''HTTP/1.1 '' @ show_int (rc_redirect_code r)) (rs_status_line resp) \<and>
    map_of (rs_headers resp) ''Location'' = Some (rc_redirect_url r)"
proof -
  have "r \<in> set (sc_routes conf)" using best_of_facts(1) [OF match_route_best [OF assms(2)]] .
  then have "rc_redirect_code r \<in> {0, 301, 302}"
    using assms(1) by (auto simp: valid_server_def valid_route_def list_all_iff)
  then show ?thesis
    using assms(2-4)
    by (auto simp: answer_request_def Let_def handle_request_def redirect_301_def redirect_302_def
        response_simps map_of_map_put prefix_def)
qed

text \<open>
  C29. Redirects of an accepted configuration are sent. Let the configuration of a client be one of the
  servers of a configuration file that was accepted (which it always is, \<open>clients_have_valid_configuration\<close>),
  let a request with any method, headers and body have arrived completely, and let the route chosen for
  its path have a redirect code. Then \<open>handle_input\<close> stores, as the whole response of the client, one
  whose status line has that code and whose \<open>Location\<close> is the configured URL, asks for \<open>POLLOUT\<close> and
  changes nothing on disk, with two exceptions: a path that names a longer route when a slash is added
  is redirected there first, and on a route that runs scripts for the path the script is started
  instead. Validation is what makes the two tests of \<open>handle_request\<close> on the code exhaustive.
\<close>

theorem configured_redirects_answered:
  assumes "parse_config os\<^sub>0 w\<^sub>0 file new_config = Returned True config"
    and "conf_of s c \<in> set (cf_servers config)"
    and "take_input (conf_of s c) bytes c = (c1, Some new_data)"
    and "parse (cl_request c1) new_data = (True, req)"
    and "match_route (target_path req) (conf_of s c) = Some r" and "rc_redirect_code r \<noteq> 0"
    and "\<not> slash_redirect (target_path req) (conf_of s c)"
    and "\<not> (cgi_route r (target_path req) \<and> method_allowed r (rq_method req))"
  shows "\<exists>s' c' resp. handle_input os net gw key c bytes idx s w = Some (s', w) \<and>
    get_client s' key = Some c' \<and> cl_response c' = to_string resp \<and> cl_response_offset c' = 0 \<and>
    sv_poll s' = (sv_poll s)[idx := or_event POLLOUT (sv_poll s ! idx)] \<and>
    prefix (''HTTP/1.1 '' @ show_int (rc_redirect_code r)) (rs_status_line resp) \<and>
    map_of (rs_headers resp) ''Location'' = Some (rc_redirect_url r)"
proof -
  have "valid_server (conf_of s c)"
    using parse_config_valid [OF assms(1)] assms(2) by (simp add: valid_servers_def list_all_iff)
  from redirect_answer [OF this assms(5,6,7), of os gw w] obtain resp where
    a: "answer_request os gw w req (conf_of s c) = Some (resp, w)"
    and r: "prefix (''HTTP/1.1 '' @ show_int (rc_redirect_code r)) (rs_status_line resp)"
      "map_of (rs_headers resp) ''Location'' = Some (rc_redirect_url r)" by blast
  have "rq_state req = PARSSING_COMPLETE"
    using assms(4) parse_loop_done unfolding parse_def by blast
  then have "\<not> is_error req" by (simp add: is_error_def)
  moreover define c2 where "c2 = (if cl_request_started (c1\<lparr>cl_request := req\<rparr>)
      then clear_raw_buffer (c1\<lparr>cl_request := req\<rparr>) else c1\<lparr>cl_request := req\<rparr>)"
  moreover have "cl_request c2 = req" by (simp add: c2_def clear_raw_buffer_def)
  then have "\<not> starts_script c2 (conf_of s c)" using assms(5,8) by (auto simp: starts_script_def)
  ultimately have "handle_input os net gw key c bytes idx s w =
      Some (put_client key (clear_buffer (set_response (to_string resp) c2))
        (s\<lparr>sv_poll := (sv_poll s)[idx := or_event POLLOUT (sv_poll s ! idx)]\<rparr>), w)"
    using assms(3,4) a by (simp add: handle_input_def Let_def)
  then show ?thesis
    using r by (simp add: get_client_def put_client_def map_of_map_put clear_buffer_def set_response_def) blast
qed

theorem configured_redirects_answered_witness:
  "\<exists>s' c' resp. handle_input feed_sys feed_net silent_gateway 9 (new_client 9 0 0)
      (''POST /a/x HTTP/1.1'' @ crlf2) 1 (demo_client (hd (cf_servers sample_config))) (new_feed [] [] []) =
        Some (s', new_feed [] [] []) \<and>
    get_client s' 9 = Some c' \<and> cl_response c' = to_string resp \<and> cl_response_offset c' = 0 \<and>
    map_of (rs_headers resp) ''Location'' = Some ''/b''"
proof -
  let ?s = "demo_client (hd (cf_servers sample_config))" and ?c = "new_client 9 0 0"
  let ?bytes = "''POST /a/x HTTP/1.1'' @ crlf2"
  obtain c1 d where t: "take_input (conf_of ?s ?c) ?bytes ?c = (c1, d)" by (metis surj_pair)
  have "snd (take_input (conf_of ?s ?c) ?bytes ?c) = Some ?bytes"
    "fst (parse (cl_request (fst (take_input (conf_of ?s ?c) ?bytes ?c))) ?bytes)"
    "target_path (snd (parse (cl_request (fst (take_input (conf_of ?s ?c) ?bytes ?c))) ?bytes)) = ''/a/x''"
    by code_simp+
  then obtain req where d: "d = Some ?bytes" and p: "parse (cl_request c1) ?bytes = (True, req)"
    and q: "target_path req = ''/a/x''"
    unfolding t by (cases "parse (cl_request c1) ?bytes") auto
  let ?r = "hd (sc_routes (hd (cf_servers sample_config)))"
  have c: "conf_of ?s ?c \<in> set (cf_servers sample_config)" "match_route ''/a/x'' (conf_of ?s ?c) = Some ?r"
    "rc_redirect_code ?r \<noteq> 0" "\<not> slash_redirect ''/a/x'' (conf_of ?s ?c)" "\<not> cgi_route ?r ''/a/x''"
    "rc_redirect_url ?r = ''/b''" by code_simp+
  show ?thesis
    using configured_redirects_answered [OF sample_conf_parses c(1) t [unfolded d] p _ c(3)] c q by fastforce
qed

text \<open>
  C5. Every client is served by a configuration that passed validation: from a configuration file that
  was accepted, through the constructor, in every state of the event loop, the client stored under a
  descriptor has that descriptor, and the configuration \<open>handle_client_read\<close>, \<open>dispatch_cgi\<close> and
  \<open>finalize_cgi\<close> look up for it is one of the file's servers and valid.
\<close>

theorem clients_have_valid_configuration:
  assumes "net_ok net" and "init_config os w path = Returned True conf"
    and "new_server_object net (cf_servers conf) w' = (s0, w0)"
    and "(server_step os net gw)\<^sup>*\<^sup>* (Polling, s0, w0) (ph, s, w1)" and "get_client s fd = Some c"
  shows "cl_fd c = fd \<and> conf_of s c \<in> set (cf_servers conf) \<and> valid_server (conf_of s c)"
proof -
  have inv: "server_inv s" "sv_configs s = cf_servers conf"
    using loop_keeps_inv [OF assms(1,3,4)] by simp_all
  have "valid_servers (cf_servers conf)"
    using parse_config_valid [OF assms(2) [unfolded init_config_def]] by simp
  moreover have "cl_fd c = fd" "conf_of s c \<in> set (cf_servers conf)"
    using inv_client [OF inv(1) assms(5)] inv(2) by (simp_all add: client_ok_def conf_of_def)
  ultimately show ?thesis by (simp add: valid_servers_def list_all_iff)
qed

theorem clients_have_valid_configuration_witness:
  "\<exists>s c. get_client s 9 = Some c \<and> conf_of s c \<in> set (cf_servers sample_config) \<and> valid_server (conf_of s c)"
proof -
  let ?os = "feed_sys\<lparr>sys_read_file := \<lambda>_ _. Some sample_conf\<rparr>"
  obtain s0 w0 where st: "new_server_object feed_net (cf_servers sample_config) (new_feed [[{POLLIN}]] [] []) = (s0, w0)"
    by (metis surj_pair)
  have "demo_accepts ?os (cf_servers sample_config)" by code_simp
  from demo_run [OF this] st obtain i s w c where
    run: "(server_step ?os feed_net silent_gateway)\<^sup>*\<^sup>* (Polling, s0, w0) (Scanning i, s, w)"
    and c: "get_client s 9 = Some c" by auto
  have "init_config ?os (new_feed [] [] []) ''a.conf'' = Returned True sample_config" by code_simp
  from clients_have_valid_configuration [OF feed_net_ok this st run c] c show ?thesis by blast
qed

end
